theory Spec2Isabelle
  imports Complex_Main
begin

section \<open>Exceptions of the Python source as values\<close>

text \<open>
  Every \<open>raise\<close> of \<open>httk/iface/vasp_if.py\<close>, and every exception a builtin raises in it,
  is a value of this type; a function that may raise returns \<open>error + 'a\<close>.
  Python strings are modelled as lists of characters with code points below 256.
\<close>

datatype error =
    StopIteration
  | ValueError
  | IndexError
  | TypeError
  | OverflowError
  | KeyError string
  | AttributeError string
  | UnboundLocalError string
  | IOError string
  | Exception string

section \<open>Pseudopotential resolver (\<open>get_pseudopotential\<close>)\<close>

text \<open>
  What the function reads from outside: the configuration value \<open>paths/vasp_pseudolib\<close>
  (\<open>None\<close> when \<open>config.get\<close> raises), the environment variable \<open>VASP_PSEUDOLIB\<close>,
  \<open>os.path.expanduser\<close>, \<open>os.path.exists\<close> and the content \<open>cleveropen(...).read()\<close>
  gives for a path (\<open>None\<close> when opening or reading raises).
\<close>

record pseudo_env =
  config_vasp_pseudolib :: "string option"
  environ_VASP_PSEUDOLIB :: "string option"
  expanduser :: "string \<Rightarrow> string"
  path_exists :: "string \<Rightarrow> bool"
  read_file :: "string \<Rightarrow> string option"

text \<open>\<open>os.path.join\<close> of two components on a POSIX system.\<close>

definition path_join :: "string \<Rightarrow> string \<Rightarrow> string" where
  "path_join a b =
     (if b \<noteq> [] \<and> hd b = CHR ''/'' then b
      else if a = [] \<or> last a = CHR ''/'' then a @ b
      else a @ ''/'' @ b)"

definition priorities :: "string list" where
  "priorities = [''_3'', ''_2'', ''_d'', ''_pv'', ''_sv'', '''', ''_h'', ''_s'']"

definition no_path_message :: string where
  "no_path_message =
     ''httk.iface.vasp_if.get_pseudopotentials: No path given for where to find VASP pseudopotentials. ''
     @ replicate 25 CHR '' ''
     @ ''Please either set vasp_pseudolib in httk.cfg, or define the VASP_PSEUDOLIB variable, or ''
     @ replicate 25 CHR '' ''
     @ ''pass along a string in your code for the parameter '' @ [CHR 0x27] @ ''poscarspath'' @ [CHR 0x27]"

definition not_found_message :: string where
  "not_found_message = ''httk.iface.vasp_if.get_pseudopotentials: could not find a suitable pseudopotential for ''"

text \<open>The \<open>for priority in [...]\<close> loop; falling out of it reaches the final \<open>raise\<close>.\<close>

fun pseudo_loop :: "pseudo_env \<Rightarrow> string \<Rightarrow> string \<Rightarrow> string list \<Rightarrow> error + string" where
  "pseudo_loop env poscarspath species [] = Inl (Exception (not_found_message @ species))"
| "pseudo_loop env poscarspath species (priority # rest) =
     (let basepath = path_join poscarspath species in
      if path_exists env (basepath @ priority) then
        (case read_file env (path_join (basepath @ priority) ''POTCAR'') of
           Some data \<Rightarrow> Inr data
         | None \<Rightarrow> Inl (IOError (path_join (basepath @ priority) ''POTCAR'')))
      else pseudo_loop env poscarspath species rest)"

text \<open>The three steps that settle \<open>poscarspath\<close> before the loop.\<close>

definition resolve_poscarspath :: "pseudo_env \<Rightarrow> string option \<Rightarrow> string option" where
  "resolve_poscarspath env poscarspath =
     (let p1 = (if poscarspath = None then config_vasp_pseudolib env else poscarspath);
          p2 = (if p1 = None \<and> environ_VASP_PSEUDOLIB env \<noteq> None
                then environ_VASP_PSEUDOLIB env else p1)
      in p2)"

definition get_pseudopotential :: "pseudo_env \<Rightarrow> string \<Rightarrow> string option \<Rightarrow> error + string" where
  "get_pseudopotential env species poscarspath =
     (case resolve_poscarspath env poscarspath of
        None \<Rightarrow> Inl (Exception no_path_message)
      | Some p \<Rightarrow> pseudo_loop env (expanduser env p) species priorities)"

text \<open>A library holding iron under three suffixes, and nothing for cobalt.\<close>

definition lib0 :: pseudo_env where
  "lib0 = \<lparr> config_vasp_pseudolib = None, environ_VASP_PSEUDOLIB = Some ''/lib'',
            expanduser = (\<lambda>p. p),
            path_exists = (\<lambda>p. p \<in> {''/lib/Fe_pv'', ''/lib/Fe_sv'', ''/lib/Fe''}),
            read_file = [''/lib/Fe_pv/POTCAR'' \<mapsto> ''PV'', ''/lib/Fe_sv/POTCAR'' \<mapsto> ''SV'',
                         ''/lib/Fe/POTCAR'' \<mapsto> ''PLAIN''] \<rparr>"

section \<open>Magnetic-configuration enumerator\<close>

definition magions :: "string list" where
  "magions = [''Ag'', ''Au'', ''Cd'', ''Ce'', ''Co'', ''Cr'', ''Cu'', ''Dy'', ''Er'', ''Eu'',
     ''Fe'', ''Gd'', ''Hf'', ''Hg'', ''Ho'', ''Ir'', ''La'', ''Lu'', ''Mn'', ''Mo'', ''Nb'', ''Nd'',
     ''Ni'', ''Os'', ''Pa'', ''Pd'', ''Pm'', ''Pr'', ''Pt'', ''Re'', ''Rh'', ''Ru'', ''Sc'', ''Sm'',
     ''Ta'', ''Tb'', ''Tc'', ''Th'', ''Ti'', ''Tm'', ''U'', ''V'', ''W'', ''Y'', ''Yb'', ''Zn'', ''Zr'']"

definition dualmag :: "string \<Rightarrow> string list option" where
  "dualmag = [''O'' \<mapsto> [''Co''], ''S'' \<mapsto> [''Mn'', ''Fe'', ''Cr'', ''Co'']]"

text \<open>The loop of \<open>is_dualmagnetic\<close> runs over the whole ion list and returns at the first hit.\<close>

fun is_dualmagnetic :: "string \<Rightarrow> string list \<Rightarrow> bool" where
  "is_dualmagnetic ion [] = False"
| "is_dualmagnetic ion (x # ionlist) =
     (case dualmag x of
        Some cations \<Rightarrow> if ion \<in> set cations then True else is_dualmagnetic ion ionlist
      | None \<Rightarrow> is_dualmagnetic ion ionlist)"

text \<open>
  \<open>magnetization_recurse\<close>: \<open>dualmags.pop()\<close> takes the last index; \<open>basemags[index] = ...\<close>
  raises \<open>IndexError\<close> out of range; both recursive calls get copies, the second one after
  the same slot has been overwritten with \<open>low\<close>. An unresolved entry is \<open>None\<close>.
\<close>

function magnetization_recurse ::
  "'a option list \<Rightarrow> nat list \<Rightarrow> 'a \<Rightarrow> 'a \<Rightarrow> error + 'a option list list" where
  "magnetization_recurse basemags dualmags high low =
     (if length dualmags = 0 then Inr [basemags]
      else
        let index = last dualmags; dualmags' = butlast dualmags in
        if length basemags \<le> index then Inl IndexError
        else
          let basemags_hi = basemags[index := Some high] in
          case magnetization_recurse basemags_hi dualmags' high low of
            Inl e \<Rightarrow> Inl e
          | Inr hi_list \<Rightarrow>
              let basemags_lo = basemags_hi[index := Some low] in
              (case magnetization_recurse basemags_lo dualmags' high low of
                 Inl e \<Rightarrow> Inl e
               | Inr low_list \<Rightarrow> Inr (hi_list @ low_list)))"
  by pat_completeness auto
termination
  by (relation "measure (\<lambda>(b, d, h, l). length d)") auto

declare magnetization_recurse.simps [simp del]

text \<open>One pass of the \<open>for i in range(len(ionlist))\<close> loop of \<open>get_magnetizations\<close>.\<close>

definition mag_step ::
  "string list \<Rightarrow> 'a \<Rightarrow> 'a \<Rightarrow> nat \<Rightarrow> 'a option list \<times> nat list \<Rightarrow> 'a option list \<times> nat list" where
  "mag_step ionlist high low i st =
     (case st of (basemags, dualmags) \<Rightarrow>
        if is_dualmagnetic (ionlist ! i) ionlist then (basemags @ [None], dualmags @ [i])
        else if ionlist ! i \<in> set magions then (basemags @ [Some high], dualmags)
        else (basemags @ [Some low], dualmags))"

definition get_magnetizations :: "string list \<Rightarrow> 'a \<Rightarrow> 'a \<Rightarrow> error + 'a option list list" where
  "get_magnetizations ionlist high low =
     (case fold (mag_step ionlist high low) [0..<length ionlist] ([], []) of
        (basemags, dualmags) \<Rightarrow> magnetization_recurse basemags dualmags high low)"

text \<open>
  The enumeration as the specification words it: for each dual index two branches,
  the high one first, the leaves concatenated depth first.
\<close>

fun enumerate_branches :: "'a option list \<Rightarrow> nat list \<Rightarrow> 'a \<Rightarrow> 'a \<Rightarrow> 'a option list list" where
  "enumerate_branches base [] high low = [base]"
| "enumerate_branches base (i # rest) high low =
     enumerate_branches (base[i := Some high]) rest high low
     @ enumerate_branches (base[i := Some low]) rest high low"

text \<open>The indices of the dual ions, ascending, and the classification of one ion.\<close>

definition dual_indices :: "string list \<Rightarrow> nat list" where
  "dual_indices ionlist = filter (\<lambda>i. is_dualmagnetic (ionlist ! i) ionlist) [0..<length ionlist]"

definition classify :: "string list \<Rightarrow> 'a \<Rightarrow> 'a \<Rightarrow> string \<Rightarrow> 'a option" where
  "classify ionlist high low ion =
     (if is_dualmagnetic ion ionlist then None
      else if ion \<in> set magions then Some high else Some low)"

section \<open>Strings, integers and text streams of Python\<close>

text \<open>
  \<open>str.isspace\<close> for the code points below 256: the separators \<open>strip()\<close> removes and
  \<open>split()\<close> splits at.
\<close>

definition is_space :: "char \<Rightarrow> bool" where
  "is_space c = ((of_char c :: nat) \<in> {9, 10, 11, 12, 13, 28, 29, 30, 31, 32, 133, 160})"

definition strip :: "string \<Rightarrow> string" where
  "strip s = rev (dropWhile is_space (rev (dropWhile is_space s)))"

text \<open>
  \<open>s.split()\<close> without argument: the maximal runs of non-space characters.
  \<open>cur\<close> is the token being read.
\<close>

fun split_from :: "string \<Rightarrow> string \<Rightarrow> string list" where
  "split_from cur [] = (if cur = [] then [] else [cur])"
| "split_from cur (c # cs) =
     (if is_space c then (if cur = [] then split_from [] cs else cur # split_from [] cs)
      else split_from (cur @ [c]) cs)"

definition split :: "string \<Rightarrow> string list" where
  "split s = split_from [] s"

definition is_digit :: "char \<Rightarrow> bool" where
  "is_digit c = (48 \<le> (of_char c :: nat) \<and> (of_char c :: nat) \<le> 57)"

definition digit_val :: "char \<Rightarrow> nat" where
  "digit_val c = of_char c - 48"

definition digit_char :: "nat \<Rightarrow> char" where
  "digit_char d = char_of (48 + d)"

text \<open>The digit part of an integer literal: digits, single underscores between them.\<close>

fun digits_ok :: "string \<Rightarrow> bool" where
  "digits_ok [] = False"
| "digits_ok [c] = is_digit c"
| "digits_ok (c # u # r) =
     (is_digit c \<and> (if u = CHR ''_'' then digits_ok r else digits_ok (u # r)))"

definition digits_value :: "string \<Rightarrow> nat" where
  "digits_value s = foldl (\<lambda>a c. 10 * a + digit_val c) 0 (filter (\<lambda>c. c \<noteq> CHR ''_'') s)"

text \<open>
  \<open>int(s)\<close> on a string: surrounding whitespace is dropped, then an optional sign and
  the digits; \<open>None\<close> stands for the \<open>ValueError\<close>. (The interpreter's optional limit on
  the number of digits is not part of the model.)
\<close>

definition py_int :: "string \<Rightarrow> int option" where
  "py_int s =
     (case strip s of
        [] \<Rightarrow> None
      | c # r \<Rightarrow>
          if c = CHR ''-'' then (if digits_ok r then Some (- int (digits_value r)) else None)
          else if c = CHR ''+'' then (if digits_ok r then Some (int (digits_value r)) else None)
          else if digits_ok (c # r) then Some (int (digits_value (c # r))) else None)"

text \<open>\<open>str(n)\<close> of an integer.\<close>

function str_nat :: "nat \<Rightarrow> string" where
  "str_nat n = (if n < 10 then [digit_char n] else str_nat (n div 10) @ [digit_char (n mod 10)])"
  by pat_completeness auto
termination
  by (relation "measure (\<lambda>n. n)") auto

declare str_nat.simps [simp del]

definition str_int :: "int \<Rightarrow> string" where
  "str_int n = (if n < 0 then CHR ''-'' # str_nat (nat (- n)) else str_nat (nat n))"

text \<open>
  \<open>list(map(int, tokens))\<close>: the first token that is no integer raises; \<open>None\<close> stands
  for that \<open>ValueError\<close>.
\<close>

fun map_int :: "string list \<Rightarrow> int list option" where
  "map_int [] = Some []"
| "map_int (t # ts) =
     (case py_int t of
        None \<Rightarrow> None
      | Some n \<Rightarrow> (case map_int ts of None \<Rightarrow> None | Some ns \<Rightarrow> Some (n # ns)))"

text \<open>
  A text stream is the list of lines iteration over the file yields, each with its
  newline but possibly the last. \<open>lines_of\<close> cuts a text into these lines; \<open>cur\<close> is the
  line being read.
\<close>

type_synonym stream = "string list"

fun lines_from :: "string \<Rightarrow> string \<Rightarrow> stream" where
  "lines_from cur [] = (if cur = [] then [] else [cur])"
| "lines_from cur (c # cs) =
     (if c = CHR 0x0A then (cur @ [c]) # lines_from [] cs else lines_from (cur @ [c]) cs)"

definition lines_of :: "string \<Rightarrow> stream" where
  "lines_of text = lines_from [] text"

text \<open>\<open>next(fi)\<close>: the next line and the rest of the stream, or \<open>StopIteration\<close>.\<close>

definition next_line :: "stream \<Rightarrow> error + (string \<times> stream)" where
  "next_line fi = (case fi of [] \<Rightarrow> Inl StopIteration | l # rest \<Rightarrow> Inr (l, rest))"

text \<open>The slice \<open>x[0:k]\<close>; a negative \<open>k\<close> counts from the end.\<close>

definition slice_to :: "int \<Rightarrow> 'a list \<Rightarrow> 'a list" where
  "slice_to k x = (if 0 \<le> k then take (nat k) x else take (nat (int (length x) + k)) x)"

text \<open>A token: a non-empty string without whitespace, what \<open>split()\<close> returns.\<close>

definition is_token :: "string \<Rightarrow> bool" where
  "is_token t = (t \<noteq> [] \<and> (\<forall>c \<in> set t. \<not> is_space c))"

section \<open>Structure codec: \<open>poscar_to_strs\<close> and \<open>write_poscar\<close>\<close>

text \<open>The tuple \<open>poscar_to_strs\<close> returns, field by field.\<close>

record poscar_strs =
  cell :: "string list list"
  scale :: "string option"
  vol :: "string option"
  coords :: "string list list"
  coords_reduced :: bool
  counts :: "int list"
  occupations :: "int list"
  comment :: string

text \<open>
  One pass of \<open>for i in [0, 1, 2]\<close>: the row starts as \<open>['', '', '']\<close> and
  \<open>cell[i][j] = v\<close> raises \<open>IndexError\<close> at a fourth token.
\<close>

definition cell_row :: "string list \<Rightarrow> error + string list" where
  "cell_row cellline =
     (if 3 < length cellline then Inl IndexError
      else Inr (cellline @ replicate (3 - length cellline) []))"

fun read_cell :: "nat \<Rightarrow> stream \<Rightarrow> error + (string list list \<times> stream)" where
  "read_cell 0 fi = Inr ([], fi)"
| "read_cell (Suc n) fi =
     (case next_line fi of
        Inl e \<Rightarrow> Inl e
      | Inr (l, fi1) \<Rightarrow>
          (case cell_row (split (strip l)) of
             Inl e \<Rightarrow> Inl e
           | Inr row \<Rightarrow>
               (case read_cell n fi1 of
                  Inl e \<Rightarrow> Inl e
                | Inr (rows, fi2) \<Rightarrow> Inr (row # rows, fi2))))"

text \<open>
  \<open>[periodictable.numbers[symbol] for symbol in symbols]\<close>; the table \<open>numbers\<close> of the
  periodic-table module is a parameter.
\<close>

fun lookup_numbers :: "(string \<rightharpoonup> int) \<Rightarrow> string list \<Rightarrow> error + int list" where
  "lookup_numbers numbers [] = Inr []"
| "lookup_numbers numbers (s # ss) =
     (case numbers s of
        None \<Rightarrow> Inl (KeyError s)
      | Some z \<Rightarrow>
          (case lookup_numbers numbers ss of Inl e \<Rightarrow> Inl e | Inr zs \<Rightarrow> Inr (z # zs)))"

text \<open>
  The counts line, or the symbols line followed by the counts line. The result is
  \<open>(counts, occupations)\<close>; \<open>range(-1, -len(counts)-1, -1)\<close> is \<open>-1, ..., -len(counts)\<close>.
\<close>

definition read_counts ::
  "(string \<rightharpoonup> int) \<Rightarrow> stream \<Rightarrow> error + ((int list \<times> int list) \<times> stream)" where
  "read_counts numbers fi =
     (case next_line fi of
        Inl e \<Rightarrow> Inl e
      | Inr (l, fi1) \<Rightarrow>
          let symbols_or_count = split (strip l) in
          (case map_int symbols_or_count of
             Some cnts \<Rightarrow> Inr ((cnts, map (\<lambda>i. - int (Suc i)) [0..<length cnts]), fi1)
           | None \<Rightarrow>
               (case next_line fi1 of
                  Inl e \<Rightarrow> Inl e
                | Inr (l2, fi2) \<Rightarrow>
                    (case map_int (split (strip l2)) of
                       None \<Rightarrow> Inl ValueError
                     | Some cnts \<Rightarrow>
                         (case lookup_numbers numbers symbols_or_count of
                            Inl e \<Rightarrow> Inl e
                          | Inr occ \<Rightarrow> Inr ((cnts, occ), fi2))))))"

text \<open>
  The coordinate-type line, after a selective-dynamics line if there is one. \<open>s[0]\<close> on
  an empty string raises \<open>IndexError\<close>. The result is the value the source assigns to
  \<open>coords_reduced\<close>: \<open>True\<close> when the line starts with one of \<open>CcKk\<close>.
\<close>

definition read_coordtype :: "stream \<Rightarrow> error + (bool \<times> stream)" where
  "read_coordtype fi =
     (case next_line fi of
        Inl e \<Rightarrow> Inl e
      | Inr (l, fi1) \<Rightarrow>
          let coordtype_or_selectivedynamics = strip l in
          (case coordtype_or_selectivedynamics of
             [] \<Rightarrow> Inl IndexError
           | c # _ \<Rightarrow>
               (case (if c \<in> set ''Ss''
                      then (case next_line fi1 of
                              Inl e \<Rightarrow> Inl e
                            | Inr (l2, fi2) \<Rightarrow> Inr (strip l2, fi2))
                      else Inr (coordtype_or_selectivedynamics, fi1)) of
                  Inl e \<Rightarrow> Inl e
                | Inr (coordtype, fi3) \<Rightarrow>
                    (case coordtype of
                       [] \<Rightarrow> Inl IndexError
                     | d # _ \<Rightarrow> Inr (if d \<in> set ''CcKk'' then True else False, fi3)))))"

text \<open>
  One coordinate line: the first three tokens, stripped, and with \<open>included_decimals\<close>
  given, cut to \<open>x[0:2+included_decimals]\<close>. \<open>None\<close> is the default \<open>''\<close>.
\<close>

definition coord_of_line :: "int option \<Rightarrow> string \<Rightarrow> string list" where
  "coord_of_line included_decimals nxt =
     (let strcoord = take 3 (split (strip nxt)) in
      case included_decimals of
        None \<Rightarrow> map strip strcoord
      | Some d \<Rightarrow> map (slice_to (2 + d)) (map strip strcoord))"

fun read_coords :: "int option \<Rightarrow> nat \<Rightarrow> stream \<Rightarrow> error + (string list list \<times> stream)" where
  "read_coords included_decimals 0 fi = Inr ([], fi)"
| "read_coords included_decimals (Suc n) fi =
     (case next_line fi of
        Inl e \<Rightarrow> Inl e
      | Inr (nxt, fi1) \<Rightarrow>
          (case read_coords included_decimals n fi1 of
             Inl e \<Rightarrow> Inl e
           | Inr (rows, fi2) \<Rightarrow> Inr (coord_of_line included_decimals nxt # rows, fi2)))"

text \<open>
  \<open>poscar_to_strs\<close>. \<open>float_neg s\<close> is the value of \<open>float(s) < 0\<close>, \<open>None\<close> when \<open>float\<close>
  raises; it is a parameter, as is the table \<open>numbers\<close>. \<open>range(N)\<close> is empty for a
  negative \<open>N\<close>. The stream left over is returned with the record.
\<close>

definition poscar_to_strs_rest ::
  "(string \<Rightarrow> bool option) \<Rightarrow> (string \<rightharpoonup> int) \<Rightarrow> int option \<Rightarrow> stream
     \<Rightarrow> error + (poscar_strs \<times> stream)" where
  "poscar_to_strs_rest float_neg numbers included_decimals fi =
     (case next_line fi of
        Inl e \<Rightarrow> Inl e
      | Inr (l1, fi1) \<Rightarrow>
     (case next_line fi1 of
        Inl e \<Rightarrow> Inl e
      | Inr (l2, fi2) \<Rightarrow>
     (let vol_or_scale = strip l2 in
      case float_neg vol_or_scale of
        None \<Rightarrow> Inl ValueError
      | Some negative \<Rightarrow>
     (case read_cell 3 fi2 of
        Inl e \<Rightarrow> Inl e
      | Inr (cell_rows, fi3) \<Rightarrow>
     (case read_counts numbers fi3 of
        Inl e \<Rightarrow> Inl e
      | Inr ((cnts, occ), fi4) \<Rightarrow>
     (case read_coordtype fi4 of
        Inl e \<Rightarrow> Inl e
      | Inr (reduced, fi5) \<Rightarrow>
     (case read_coords included_decimals (nat (sum_list cnts)) fi5 of
        Inl e \<Rightarrow> Inl e
      | Inr (coord_rows, fi6) \<Rightarrow>
          Inr (\<lparr> cell = cell_rows,
                 scale = (if negative then None else Some vol_or_scale),
                 vol = (if negative then Some (drop 1 vol_or_scale) else None),
                 coords = coord_rows,
                 coords_reduced = reduced,
                 counts = cnts,
                 occupations = occ,
                 comment = strip l1 \<rparr>, fi6))))))))"

definition poscar_to_strs ::
  "(string \<Rightarrow> bool option) \<Rightarrow> (string \<rightharpoonup> int) \<Rightarrow> int option \<Rightarrow> stream \<Rightarrow> error + poscar_strs" where
  "poscar_to_strs float_neg numbers included_decimals fi =
     (case poscar_to_strs_rest float_neg numbers included_decimals fi of
        Inl e \<Rightarrow> Inl e
      | Inr (r, rest) \<Rightarrow> Inr r)"

text \<open>
  \<open>write_poscar\<close>: the text written to the file. \<open>for c1, c2, c3 in rows\<close> raises
  \<open>ValueError\<close> at a row that has not three entries; the entries are the \<open>str(x)\<close> of
  the arguments. \<open>symbols\<close> is the list \<open>periodictable.symbols\<close>, a parameter.
\<close>

fun write_rows :: "string list list \<Rightarrow> error + string" where
  "write_rows [] = Inr []"
| "write_rows (row # rows) =
     (case row of
        [c1, c2, c3] \<Rightarrow>
          (case write_rows rows of
             Inl e \<Rightarrow> Inl e
           | Inr text \<Rightarrow> Inr (c1 @ '' '' @ c2 @ '' '' @ c3 @ [CHR 0x0A] @ text))
      | _ \<Rightarrow> Inl ValueError)"

text \<open>The species line: one name and a space for every index of \<open>counts\<close>.\<close>

fun write_species :: "string list \<Rightarrow> string list option \<Rightarrow> nat list \<Rightarrow> error + string" where
  "write_species symbols occs [] = Inr []"
| "write_species symbols occs (i # is) =
     (let names = (case occs of None \<Rightarrow> symbols | Some os \<Rightarrow> os) in
      if length names \<le> i then Inl IndexError
      else (case write_species symbols occs is of
              Inl e \<Rightarrow> Inl e
            | Inr text \<Rightarrow> Inr (names ! i @ '' '' @ text)))"

definition write_counts :: "int list \<Rightarrow> string" where
  "write_counts cnts = concat (map (\<lambda>count. str_int count @ '' '') cnts)"

definition write_poscar ::
  "string list \<Rightarrow> string list list \<Rightarrow> string list list \<Rightarrow> bool \<Rightarrow> int list \<Rightarrow> string list option
     \<Rightarrow> string \<Rightarrow> string \<Rightarrow> string option \<Rightarrow> error + string" where
  "write_poscar symbols cell_rows coord_rows reduced cnts occs comment_str scale_str vol_str =
     (let head = comment_str @ [CHR 0x0A]
                 @ (case vol_str of Some v \<Rightarrow> ''-'' @ v | None \<Rightarrow> scale_str) @ [CHR 0x0A] in
      case write_rows cell_rows of
        Inl e \<Rightarrow> Inl e
      | Inr cell_text \<Rightarrow>
     (case write_species symbols occs [0..<length cnts] of
        Inl e \<Rightarrow> Inl e
      | Inr species_text \<Rightarrow>
     (case write_rows coord_rows of
        Inl e \<Rightarrow> Inl e
      | Inr coord_text \<Rightarrow>
          Inr (head @ cell_text @ species_text @ [CHR 0x0A] @ write_counts cnts @ [CHR 0x0A]
               @ (if reduced then ''D'' else ''K'') @ [CHR 0x0A] @ coord_text))))"

text \<open>Writing a record and reading the written text back.\<close>

definition write_then_parse ::
  "(string \<Rightarrow> bool option) \<Rightarrow> (string \<rightharpoonup> int) \<Rightarrow> string list \<Rightarrow> string list list
     \<Rightarrow> string list list \<Rightarrow> bool \<Rightarrow> int list \<Rightarrow> string list option
     \<Rightarrow> string \<Rightarrow> string \<Rightarrow> string option \<Rightarrow> error + poscar_strs" where
  "write_then_parse float_neg numbers symbols cell_rows coord_rows reduced cnts occs
       comment_str scale_str vol_str =
     (case write_poscar symbols cell_rows coord_rows reduced cnts occs comment_str scale_str vol_str of
        Inl e \<Rightarrow> Inl e
      | Inr text \<Rightarrow> poscar_to_strs float_neg numbers None (lines_of text))"

text \<open>
  The line \<open>write_poscar\<close> writes for a row of three entries, a row of three tokens,
  and a string without line break (line feed or carriage return).
\<close>

definition row_line :: "string list \<Rightarrow> string" where
  "row_line row = row ! 0 @ '' '' @ row ! 1 @ '' '' @ row ! 2 @ [CHR 0x0A]"

definition good_row :: "string list \<Rightarrow> bool" where
  "good_row row = (length row = 3 \<and> (\<forall>t \<in> set row. is_token t))"

definition no_linebreak :: "string \<Rightarrow> bool" where
  "no_linebreak s = (\<forall>c \<in> set s. c \<noteq> CHR 0x0A \<and> c \<noteq> CHR 0x0D)"

text \<open>
  \<open>consumes R fi x k\<close>: on the stream \<open>fi\<close> the reader \<open>R\<close> uses exactly the first \<open>k\<close>
  lines and returns \<open>x\<close>; on a stream cut before them it ends in \<open>StopIteration\<close>.
\<close>

definition consumes :: "(stream \<Rightarrow> error + ('a \<times> stream)) \<Rightarrow> stream \<Rightarrow> 'a \<Rightarrow> nat \<Rightarrow> bool" where
  "consumes R fi x k =
     (k \<le> length fi \<and>
      (\<forall>m. R (take m fi) =
             (if m < k then Inl StopIteration else Inr (x, take (m - k) (drop k fi)))))"

text \<open>
  A small record for the examples: a sign test that agrees with \<open>float(s) < 0\<close> on the
  three strings it knows, two rows of the periodic table, the unit cell, and a file of
  ten lines whose coordinate-type line is \<open>marker\<close>, with the tuple parsed from it.
\<close>

definition sample_float_neg :: "string \<Rightarrow> bool option" where
  "sample_float_neg = [''1'' \<mapsto> False, ''1.0'' \<mapsto> False, ''-27'' \<mapsto> True]"

definition sample_numbers :: "string \<rightharpoonup> int" where
  "sample_numbers = [''Fe'' \<mapsto> 26, ''O'' \<mapsto> 8]"

definition unit_cell :: "string list list" where
  "unit_cell = [[''1'', ''0'', ''0''], [''0'', ''1'', ''0''], [''0'', ''0'', ''1'']]"

definition sample_stream :: "string \<Rightarrow> stream" where
  "sample_stream marker =
     [''FeO'' @ [CHR 0x0A], ''1.0'' @ [CHR 0x0A],
      ''1 0 0'' @ [CHR 0x0A], ''0 1 0'' @ [CHR 0x0A], ''0 0 1'' @ [CHR 0x0A],
      ''Fe O'' @ [CHR 0x0A], ''1 1'' @ [CHR 0x0A], marker @ [CHR 0x0A],
      ''0 0 0'' @ [CHR 0x0A], ''1/2 1/2 1/2'' @ [CHR 0x0A]]"

definition sample_record :: "bool \<Rightarrow> poscar_strs" where
  "sample_record flag =
     \<lparr> cell = unit_cell, scale = Some ''1.0'', vol = None,
       coords = [[''0'', ''0'', ''0''], [''1/2'', ''1/2'', ''1/2'']],
       coords_reduced = flag, counts = [1, 1], occupations = [26, 8], comment = ''FeO'' \<rparr>"

section \<open>Output parser: \<open>OutcarReader\<close>\<close>

text \<open>
  Values held by Python objects and dictionaries here, and an object or dictionary as
  the map from attribute names or keys to values. Reading an attribute that was never
  set raises \<open>AttributeError\<close>.
\<close>

datatype pyval = PyBool bool | PyStr string | PyLines stream

type_synonym pydict = "string \<rightharpoonup> pyval"

definition getattr :: "pydict \<Rightarrow> string \<Rightarrow> error + pyval" where
  "getattr obj name = (case obj name of None \<Rightarrow> Inl (AttributeError name) | Some v \<Rightarrow> Inr v)"

text \<open>\<open>pat in s\<close> for strings, which is also \<open>re.search(pat, s)\<close> for a pattern of plain letters.\<close>

fun contains :: "string \<Rightarrow> string \<Rightarrow> bool" where
  "contains pat [] = (pat = [])"
| "contains pat (c # s) = (take (length pat) (c # s) = pat \<or> contains pat s)"

text \<open>
  The regular expressions of this file are sequences of four kinds of items: literal
  text, \<open> *\<close>, the group \<open>([^ ]+)\<close> and \<open>$\<close>. \<open>rx_match\<close> matches such a sequence at the
  start of a string the way the backtracking matcher of \<open>re\<close> does: a repetition takes the
  longest run first and gives characters back one at a time; the result is the list of
  the groups of the first match found. \<open>$\<close> matches at the end of the string and before a
  newline that ends it; \<open>[^ ]\<close> matches every character but the space, the newline too.
\<close>

datatype rx_item = Lit string | Spaces | Group | End

fun first_some :: "'a option list \<Rightarrow> 'a option" where
  "first_some [] = None"
| "first_some (None # xs) = first_some xs"
| "first_some (Some x # xs) = Some x"

fun rx_match :: "rx_item list \<Rightarrow> string \<Rightarrow> string list option" where
  "rx_match [] s = Some []"
| "rx_match (Lit l # items) s =
     (if take (length l) s = l then rx_match items (drop (length l) s) else None)"
| "rx_match (Spaces # items) s =
     first_some (map (\<lambda>n. rx_match items (drop n s))
       (rev [0..<Suc (length (takeWhile (\<lambda>c. c = CHR '' '') s))]))"
| "rx_match (Group # items) s =
     first_some (map (\<lambda>n. map_option (\<lambda>groups. take n s # groups) (rx_match items (drop n s)))
       (rev [1..<Suc (length (takeWhile (\<lambda>c. c \<noteq> CHR '' '') s))]))"
| "rx_match (End # items) s =
     (if s = [] \<or> s = [CHR 0x0A] then rx_match items s else None)"

text \<open>
  \<open>^ *energy *without *entropy= *([^ ]+) *energy\(sigma->0\) *= *([^ ]+) *$\<close>; the \<open>^\<close>
  ties \<open>re.search\<close> to the start of the line.
\<close>

definition energy_pattern :: "rx_item list" where
  "energy_pattern =
     [Spaces, Lit ''energy'', Spaces, Lit ''without'', Spaces, Lit ''entropy='', Spaces, Group,
      Spaces, Lit ''energy(sigma->0)'', Spaces, Lit ''='', Spaces, Group, Spaces, End]"

definition search_energy :: "string \<Rightarrow> string list option" where
  "search_energy line = rx_match energy_pattern line"

definition search_free_energie :: "string \<Rightarrow> string list option" where
  "search_free_energie line = (if contains ''FREE ENERGIE'' line then Some [] else None)"

text \<open>
  Modelled from the spec: \<open>micro_pyawk\<close> of \<open>httk.core.basic\<close>, which is not among the
  sources. The specification describes it as a single left-to-right scan over the
  stream with an ordered list of (pattern, test, action) rules evaluated per line, where
  a line triggers every rule whose pattern matches it; a test of \<open>None\<close> always passes.
  The state \<open>'s\<close> is what the actions change.
\<close>

type_synonym 's rule =
  "(string \<Rightarrow> string list option) \<times> ('s \<Rightarrow> string list \<Rightarrow> bool) option \<times> ('s \<Rightarrow> string list \<Rightarrow> 's)"

fun apply_rules :: "'s rule list \<Rightarrow> string \<Rightarrow> 's \<Rightarrow> 's" where
  "apply_rules [] line st = st"
| "apply_rules ((pattern, test, action) # rules) line st =
     (case pattern line of
        None \<Rightarrow> apply_rules rules line st
      | Some m \<Rightarrow>
          if (case test of None \<Rightarrow> True | Some t \<Rightarrow> t st m)
          then apply_rules rules line (action st m)
          else apply_rules rules line st)"

definition micro_pyawk :: "stream \<Rightarrow> 's rule list \<Rightarrow> 's \<Rightarrow> 's" where
  "micro_pyawk ioa search st = fold (apply_rules search) ioa st"

text \<open>
  The two actions of \<open>OutcarReader.parse\<close>. The state is the pair of the reader object
  \<open>self\<close> and the dictionary \<open>results\<close>: \<open>read_energy\<close> sets two attributes of \<open>self\<close>,
  \<open>set_final\<close> sets a key of \<open>results\<close>.
\<close>

definition set_final :: "pydict \<times> pydict \<Rightarrow> string list \<Rightarrow> pydict \<times> pydict" where
  "set_final st m = (case st of (self, results) \<Rightarrow> (self, results(''final'' \<mapsto> PyBool True)))"

definition read_energy :: "pydict \<times> pydict \<Rightarrow> string list \<Rightarrow> pydict \<times> pydict" where
  "read_energy st m =
     (case st of (self, results) \<Rightarrow>
        (self(''final_energy_with_entropy'' \<mapsto> PyStr (m ! 0), ''final_energy'' \<mapsto> PyStr (m ! 1)),
         results))"

text \<open>
  \<open>parse\<close> returns nothing and stores nothing of \<open>results\<close> in \<open>self\<close>; the model returns
  the local dictionary beside the object so that it can be looked at.
\<close>

definition outcar_parse :: "pydict \<Rightarrow> stream \<Rightarrow> pydict \<times> pydict" where
  "outcar_parse self ioa =
     (let results = [''final'' \<mapsto> PyBool False];
          (self1, results1) =
             micro_pyawk ioa
               [(search_energy, None, read_energy), (search_free_energie, None, set_final)]
               (self, results)
      in (self1(''parsed'' \<mapsto> PyBool True), results1))"

text \<open>\<open>OutcarReader(ioa)\<close>: the object after \<open>__init__\<close>; \<open>read_outcar\<close> returns it.\<close>

definition OutcarReader :: "stream \<Rightarrow> pydict" where
  "OutcarReader ioa = fst (outcar_parse [''ioa'' \<mapsto> PyLines ioa] ioa)"

definition read_outcar :: "stream \<Rightarrow> pydict" where
  "read_outcar ioa = OutcarReader ioa"

text \<open>The two rules \<open>parse\<close> hands to \<open>micro_pyawk\<close>.\<close>

definition outcar_rules :: "(pydict \<times> pydict) rule list" where
  "outcar_rules = [(search_energy, None, read_energy), (search_free_energie, None, set_final)]"

text \<open>An OUTCAR of two lines: an energy line and the line that ends the energy block.\<close>

definition sample_outcar :: stream where
  "sample_outcar =
     [''  energy  without entropy=      -10.50  energy(sigma->0) =      -10.40'' @ [CHR 0x0A],
      ''  FREE ENERGIE OF THE ION-ELECTRON SYSTEM (eV)'' @ [CHR 0x0A]]"

section \<open>Result assembler: \<open>generate_result\<close>\<close>

text \<open>
  What \<open>generate_result(path)\<close> takes from outside: the directory listing, the lines of
  a file (\<open>None\<close> when it cannot be opened), \<open>float\<close> on a string (\<open>None\<close> for its
  \<open>ValueError\<close>), the two parameters of \<open>poscar_to_strs\<close>, the construction of the
  structure object from the parsed tuple in \<open>poscar_to_structure\<close> (exact fractions, the
  periodic table and the structure class are not among the sources), and the outcome of
  \<open>generate_computation(path)\<close>.
\<close>

record ('st, 'c, 'f) result_env =
  listdir :: "string list"
  open_lines :: "string \<Rightarrow> stream option"
  env_to_float :: "string \<Rightarrow> 'f option"
  env_float_neg :: "string \<Rightarrow> bool option"
  env_numbers :: "string \<rightharpoonup> int"
  build_structure :: "poscar_strs \<Rightarrow> error + 'st"
  computation_of :: "error + 'c"

text \<open>The arguments of \<open>Result_TotalEnergyResult\<close>; \<open>result_structure\<close> is its \<open>structure\<close>.\<close>

record ('st, 'c, 'f) total_energy_result =
  computation :: 'c
  result_structure :: "'st option"
  total_energy :: 'f

definition poscar_to_structure ::
  "('st, 'c, 'f) result_env \<Rightarrow> string \<Rightarrow> int option \<Rightarrow> error + 'st" where
  "poscar_to_structure env f included_decimals =
     (case open_lines env f of
        None \<Rightarrow> Inl (IOError f)
      | Some fi \<Rightarrow>
          (case poscar_to_strs (env_float_neg env) (env_numbers env) included_decimals fi of
             Inl e \<Rightarrow> Inl e
           | Inr strs \<Rightarrow> build_structure env strs))"

text \<open>\<open>float(outcar.final_energy)\<close> for the reader made from a file of the directory.\<close>

definition outcar_final_energy :: "('st, 'c, 'f) result_env \<Rightarrow> string \<Rightarrow> error + 'f" where
  "outcar_final_energy env f =
     (case open_lines env f of
        None \<Rightarrow> Inl (IOError f)
      | Some fi \<Rightarrow>
          (case getattr (read_outcar fi) ''final_energy'' of
             Inl e \<Rightarrow> Inl e
           | Inr (PyStr s) \<Rightarrow> (case env_to_float env s of None \<Rightarrow> Inl ValueError | Some x \<Rightarrow> Inr x)
           | Inr _ \<Rightarrow> Inl TypeError))"

text \<open>
  The loop over the listing. The state is \<open>(final_energy, struct)\<close>; \<open>final_energy\<close> is
  \<open>None\<close> as long as the local variable is unbound.
\<close>

fun scan_listing ::
  "('st, 'c, 'f) result_env \<Rightarrow> string \<Rightarrow> string list \<Rightarrow> 'f option \<times> 'st option
     \<Rightarrow> error + ('f option \<times> 'st option)" where
  "scan_listing env path [] st = Inr st"
| "scan_listing env path (filename # rest) (final_energy, struct) =
     (case (if contains ''OUTCAR'' filename
            then (case outcar_final_energy env (path_join path filename) of
                    Inl e \<Rightarrow> Inl e
                  | Inr x \<Rightarrow> Inr (Some x))
            else Inr final_energy) of
        Inl e \<Rightarrow> Inl e
      | Inr final_energy1 \<Rightarrow>
          (case (if contains ''CONTCAR'' filename
                 then (case poscar_to_structure env (path_join path filename) (Some 5) of
                         Inl e \<Rightarrow> Inl e
                       | Inr s \<Rightarrow> Inr (Some s))
                 else Inr struct) of
             Inl e \<Rightarrow> Inl e
           | Inr struct1 \<Rightarrow> scan_listing env path rest (final_energy1, struct1)))"

text \<open>
  \<open>generate_result\<close>: \<open>Inr None\<close> is the return value \<open>None\<close>. In the fallback the value
  of \<open>poscar_to_structure\<close> is not assigned; only its exception matters.
\<close>

definition generate_result ::
  "('st, 'c, 'f) result_env \<Rightarrow> string \<Rightarrow> error + ('st, 'c, 'f) total_energy_result option" where
  "generate_result env path =
     (case scan_listing env path (listdir env) (None, None) of
        Inl e \<Rightarrow> Inl e
      | Inr (final_energy, struct) \<Rightarrow>
          let fallback_failed =
                (if struct = None
                 then (case poscar_to_structure env (path_join path ''POSCAR'') (Some 5) of
                         Inl e \<Rightarrow> True
                       | Inr s \<Rightarrow> False)
                 else False)
          in if fallback_failed then Inr None
             else (case computation_of env of
                     Inl e \<Rightarrow> Inl e
                   | Inr c \<Rightarrow>
                       (case final_energy of
                          None \<Rightarrow> Inl (UnboundLocalError ''final_energy'')
                        | Some x \<Rightarrow>
                            Inr (Some \<lparr> computation = c, result_structure = struct, total_energy = x \<rparr>))))"

text \<open>
  A run directory with an OUTCAR and a POSCAR and no CONTCAR, and the same directory
  with a POSCAR of two lines only. The structure object is the parsed tuple itself.
\<close>

definition sample_dir :: "stream \<Rightarrow> (poscar_strs, unit, rat) result_env" where
  "sample_dir poscar =
     \<lparr> listdir = [''OUTCAR'', ''POSCAR''],
       open_lines = [''/run/OUTCAR'' \<mapsto> sample_outcar, ''/run/POSCAR'' \<mapsto> poscar],
       env_to_float = [''-10.40'' @ [CHR 0x0A] \<mapsto> - 52 / 5],
       env_float_neg = sample_float_neg,
       env_numbers = sample_numbers,
       build_structure = Inr,
       computation_of = Inr () \<rparr>"

section \<open>Calculation info: \<open>parse_outcar\<close>\<close>

text \<open>
  The dictionary \<open>calc_info\<close>, one field per key; \<open>None\<close> is Python's \<open>None\<close>. \<open>'f\<close> is
  the type of floats, and \<open>float\<close> on a string a parameter of the functions below
  (\<open>None\<close> for its \<open>ValueError\<close>).
\<close>

record 'f calc_info =
  Code :: "string option"
  Version :: "string option"
  Build :: "string option"
  ENCUT :: "'f option"
  NKPTS :: "int option"
  XC :: "string option"
  Potentials :: "string list"
  Date :: "string option"
  Time :: "string option"
  Elapsed :: "'f option"
  System :: "string option"
  Nodes :: "int option"
  Cores :: "int option"

definition initial_calc_info :: "'f calc_info" where
  "initial_calc_info =
     \<lparr> Code = None, Version = None, Build = None, ENCUT = None, NKPTS = None, XC = None,
       Potentials = [], Date = None, Time = None, Elapsed = None, System = None,
       Nodes = None, Cores = None \<rparr>"

definition system_cpn :: "string \<rightharpoonup> int" where
  "system_cpn = [''Lumi'' \<mapsto> 128, ''Dardel'' \<mapsto> 128, ''Tetralith'' \<mapsto> 32, ''Sigma'' \<mapsto> 32]"

text \<open>\<open>not None in calc_info.values()\<close>; the list of potentials is never \<open>None\<close>.\<close>

definition all_set :: "'f calc_info \<Rightarrow> bool" where
  "all_set info =
     (Code info \<noteq> None \<and> Version info \<noteq> None \<and> Build info \<noteq> None \<and> ENCUT info \<noteq> None
      \<and> NKPTS info \<noteq> None \<and> XC info \<noteq> None \<and> Date info \<noteq> None \<and> Time info \<noteq> None
      \<and> Elapsed info \<noteq> None \<and> System info \<noteq> None \<and> Nodes info \<noteq> None \<and> Cores info \<noteq> None)"

text \<open>\<open>text.rstrip('\n')\<close>, \<open>xs[i]\<close> for \<open>i \<ge> 0\<close>, \<open>xs[-1]\<close>, \<open>s.split(sep)\<close> and \<open>sep.join(xs)\<close>.\<close>

definition rstrip_newline :: "string \<Rightarrow> string" where
  "rstrip_newline s = rev (dropWhile (\<lambda>c. c = CHR 0x0A) (rev s))"

definition index_at :: "'a list \<Rightarrow> nat \<Rightarrow> error + 'a" where
  "index_at xs i = (if i < length xs then Inr (xs ! i) else Inl IndexError)"

definition last_of :: "'a list \<Rightarrow> error + 'a" where
  "last_of xs = (if xs = [] then Inl IndexError else Inr (last xs))"

fun split_on :: "char \<Rightarrow> string \<Rightarrow> string \<Rightarrow> string list" where
  "split_on sep cur [] = [cur]"
| "split_on sep cur (c # cs) =
     (if c = sep then cur # split_on sep [] cs else split_on sep (cur @ [c]) cs)"

fun join :: "string \<Rightarrow> string list \<Rightarrow> string" where
  "join sep [] = []"
| "join sep [x] = x"
| "join sep (x # y # xs) = x @ sep @ join sep (y # xs)"

text \<open>
  \<open>re.search\<close> for the two patterns that are not plain text: \<open>vasp\.\d\.\d\.\d\S+\<close> and
  \<open>POTCAR\S+\<close>, tried at every position of the line.
\<close>

definition vasp_here :: "string \<Rightarrow> bool" where
  "vasp_here s =
     (take 5 s = ''vasp.'' \<and> 11 \<le> length s \<and> is_digit (s ! 5) \<and> s ! 6 = CHR ''.''
      \<and> is_digit (s ! 7) \<and> s ! 8 = CHR ''.'' \<and> is_digit (s ! 9) \<and> \<not> is_space (s ! 10))"

definition potcar_here :: "string \<Rightarrow> bool" where
  "potcar_here s = (take 6 s = ''POTCAR'' \<and> 7 \<le> length s \<and> \<not> is_space (s ! 6))"

fun search_at :: "(string \<Rightarrow> bool) \<Rightarrow> string \<Rightarrow> bool" where
  "search_at here [] = here []"
| "search_at here (c # s) = (here (c # s) \<or> search_at here s)"

text \<open>Running one statement after another: the first exception ends the run.\<close>

definition then_do :: "error + 'a \<Rightarrow> ('a \<Rightarrow> error + 'b) \<Rightarrow> error + 'b" where
  "then_do m f = (case m of Inl e \<Rightarrow> Inl e | Inr x \<Rightarrow> f x)"

text \<open>The statements of the loop body, in the order of the source.\<close>

definition upd_code :: "'f calc_info \<Rightarrow> string \<Rightarrow> error + 'f calc_info" where
  "upd_code info line =
     (if Code info = None \<and> search_at vasp_here line then
        then_do (index_at (split line) 0) (\<lambda>word.
        let data = split_on CHR ''.'' [] word in
        then_do (index_at data 0) (\<lambda>d0.
        if d0 = ''vasp'' then
          then_do (last_of data) (\<lambda>build.
          Inr (info\<lparr> Code := Some ''VASP'',
                     Version := Some (join ''.'' (take 3 (drop 1 data))),
                     Build := Some build \<rparr>))
        else Inr info))
      else Inr info)"

definition upd_potentials :: "'f calc_info \<Rightarrow> string \<Rightarrow> error + 'f calc_info" where
  "upd_potentials info line =
     (if search_at potcar_here line then
        let words = split line; pot = join '' '' (drop (length words - 2) words) in
        if pot \<in> set (Potentials info) then Inr info
        else Inr (info\<lparr> Potentials := Potentials info @ [pot] \<rparr>)
      else Inr info)"

definition classify_host :: "string \<Rightarrow> string" where
  "classify_host host =
     (if contains ''LUMI'' host then ''Lumi''
      else if contains ''TETRALITH'' host then ''Tetralith''
      else host)"

definition upd_system :: "'f calc_info \<Rightarrow> string \<Rightarrow> error + 'f calc_info" where
  "upd_system info line =
     (if System info = None \<and> contains ''executed on'' line then
        let data = split line in
        then_do (index_at data 2) (\<lambda>host.
        then_do (index_at data 4) (\<lambda>date.
        then_do (last_of data) (\<lambda>time.
        Inr (info\<lparr> System := Some (classify_host host), Date := Some date, Time := Some time \<rparr>))))
      else Inr info)"

definition upd_xc :: "'f calc_info \<Rightarrow> string \<Rightarrow> error + 'f calc_info" where
  "upd_xc info line =
     (if XC info = None \<and> contains ''LEXCH'' line then
        then_do (last_of (split line)) (\<lambda>xc. Inr (info\<lparr> XC := Some xc \<rparr>))
      else Inr info)"

definition upd_cores :: "'f calc_info \<Rightarrow> string \<Rightarrow> error + 'f calc_info" where
  "upd_cores info line =
     (if Cores info = None \<and> contains ''running on'' line then
        then_do (index_at (split line) 2) (\<lambda>word.
        case py_int word of
          None \<Rightarrow> Inl ValueError
        | Some n \<Rightarrow> Inr (info\<lparr> Cores := Some n \<rparr>))
      else Inr info)"

definition upd_encut :: "(string \<Rightarrow> 'f option) \<Rightarrow> 'f calc_info \<Rightarrow> string \<Rightarrow> error + 'f calc_info" where
  "upd_encut to_float info line =
     (if ENCUT info = None \<and> contains ''ENCUT'' line then
        then_do (index_at (split line) 2) (\<lambda>word.
        case to_float word of
          None \<Rightarrow> Inl ValueError
        | Some x \<Rightarrow> Inr (info\<lparr> ENCUT := Some x \<rparr>))
      else Inr info)"

definition upd_nkpts :: "'f calc_info \<Rightarrow> string \<Rightarrow> error + 'f calc_info" where
  "upd_nkpts info line =
     (if NKPTS info = None \<and> contains ''NKPTS'' line then
        then_do (index_at (split line) 3) (\<lambda>word.
        case py_int word of
          None \<Rightarrow> Inl ValueError
        | Some n \<Rightarrow> Inr (info\<lparr> NKPTS := Some n \<rparr>))
      else Inr info)"

definition upd_elapsed :: "(string \<Rightarrow> 'f option) \<Rightarrow> 'f calc_info \<Rightarrow> string \<Rightarrow> error + 'f calc_info" where
  "upd_elapsed to_float info line =
     (if Elapsed info = None \<and> contains ''Elapsed time'' line then
        then_do (last_of (split line)) (\<lambda>word.
        case to_float word of
          None \<Rightarrow> Inl ValueError
        | Some x \<Rightarrow> Inr (info\<lparr> Elapsed := Some x \<rparr>))
      else Inr info)"

text \<open>
  \<open>int(cores / cpn)\<close>: the quotient cut towards zero (exact as long as the float
  quotient is, that is for core counts below \<open>2 ^ 53\<close>).
\<close>

definition int_quotient :: "int \<Rightarrow> int \<Rightarrow> int" where
  "int_quotient a b = sgn a * sgn b * (\<bar>a\<bar> div \<bar>b\<bar>)"

text \<open>The last statement of the body: the lookup in \<open>system_cpn\<close> has no guard.\<close>

definition derive_nodes :: "'f calc_info \<Rightarrow> error + 'f calc_info" where
  "derive_nodes info =
     (case (Cores info, System info) of
        (Some cores, Some sys) \<Rightarrow>
          (case system_cpn sys of
             None \<Rightarrow> Inl (KeyError sys)
           | Some cpn \<Rightarrow> Inr (info\<lparr> Nodes := Some (int_quotient cores cpn) \<rparr>))
      | _ \<Rightarrow> Inr info)"

definition update_fields :: "(string \<Rightarrow> 'f option) \<Rightarrow> 'f calc_info \<Rightarrow> string \<Rightarrow> error + 'f calc_info" where
  "update_fields to_float info line =
     then_do (upd_code info line) (\<lambda>i1.
     then_do (upd_potentials i1 line) (\<lambda>i2.
     then_do (upd_system i2 line) (\<lambda>i3.
     then_do (upd_xc i3 line) (\<lambda>i4.
     then_do (upd_cores i4 line) (\<lambda>i5.
     then_do (upd_encut to_float i5 line) (\<lambda>i6.
     then_do (upd_nkpts i6 line) (\<lambda>i7.
     upd_elapsed to_float i7 line)))))))"

text \<open>The loop \<open>for text in f\<close> with its \<open>break\<close>, and \<open>parse_outcar\<close> on the lines of the file.\<close>

fun outcar_loop :: "(string \<Rightarrow> 'f option) \<Rightarrow> 'f calc_info \<Rightarrow> stream \<Rightarrow> error + 'f calc_info" where
  "outcar_loop to_float info [] = Inr info"
| "outcar_loop to_float info (text # f) =
     (let line = rstrip_newline text in
      if all_set info then Inr info
      else then_do (then_do (update_fields to_float info line) derive_nodes)
             (\<lambda>info1. outcar_loop to_float info1 f))"

definition parse_outcar :: "(string \<Rightarrow> 'f option) \<Rightarrow> stream \<Rightarrow> error + 'f calc_info" where
  "parse_outcar to_float f = outcar_loop to_float initial_calc_info f"

text \<open>
  The system a line \<open>executed on ...\<close> names, and a line whose fields can be read: the
  words the statements index exist and are numbers where a number is read.
\<close>

definition system_name :: "string \<Rightarrow> string" where
  "system_name line = (case index_at (split line) 2 of Inl e \<Rightarrow> [] | Inr host \<Rightarrow> classify_host host)"

definition line_ok :: "(string \<Rightarrow> 'f option) \<Rightarrow> string \<Rightarrow> bool" where
  "line_ok to_float line =
     ((contains ''executed on'' line \<longrightarrow> 5 \<le> length (split line))
      \<and> (contains ''running on'' line \<longrightarrow> 3 \<le> length (split line) \<and> py_int (split line ! 2) \<noteq> None)
      \<and> (contains ''ENCUT'' line \<longrightarrow> 3 \<le> length (split line) \<and> to_float (split line ! 2) \<noteq> None)
      \<and> (contains ''NKPTS'' line \<longrightarrow> 4 \<le> length (split line) \<and> py_int (split line ! 3) \<noteq> None)
      \<and> (contains ''Elapsed time'' line \<longrightarrow> to_float (last (split line)) \<noteq> None))"

text \<open>Two lines of an OUTCAR written on a cluster that is not in the table.\<close>

definition sample_host_outcar :: stream where
  "sample_host_outcar =
     ['' executed on             LinuxIFC date 2023.01.01  12:00:00'' @ [CHR 0x0A],
      '' running on   16 total cores'' @ [CHR 0x0A]]"

section \<open>Serialising a structure: \<open>structure_to_poscar\<close>\<close>

text \<open>
  Exact vectors and matrices: a basis is three rows of three fractions, a list of
  coordinates one such row per site.
\<close>

type_synonym vec3 = "rat \<times> rat \<times> rat"

type_synonym mat3 = "vec3 \<times> vec3 \<times> vec3"

text \<open>
  Modelled from the spec: the operations of the exact-fraction vector class
  (\<open>FracVector\<close>), which is not among the sources: the determinant of a basis, the
  negation \<open>-v\<close>, and \<open>normalize\<close>, which the specification describes as renormalising
  the coordinates into \<open>[0,1)\<close>: every component is taken modulo one.
\<close>

definition det :: "mat3 \<Rightarrow> rat" where
  "det m =
     (case m of ((a, b, c), (d, e, f), (g, h, i)) \<Rightarrow>
        a * (e * i - f * h) - b * (d * i - f * g) + c * (d * h - e * g))"







text \<open>
  What \<open>structure_to_poscar\<close> and \<open>structure_to_comment\<close> read of a structure: the
  unit-cell attributes of the structure itself, those of its primitive cell \<open>pc\<close>, the
  symbols, and what the comment is made of.
\<close>

record unitcell =
  uc_basis :: mat3
  uc_reduced_coords :: "vec3 list"
  uc_volume :: rat
  uc_counts :: "int list"

record crystal = unitcell +
  pc :: unitcell
  struct_symbols :: "string list"
  formula :: string
  hexhash :: string
  tags :: "(string \<times> string) list"
  has_rc_repr :: bool
  has_uc_repr :: bool













section \<open>K-point estimator: \<open>calculate_kpoints\<close>\<close>

text \<open>
  Modelled from the spec: \<open>reciprocal()\<close> of the vector class, the reciprocal basis, as
  the transpose of the inverse; \<open>lengthsqr()\<close> is the squared length of a row.
\<close>

definition reciprocal :: "mat3 \<Rightarrow> mat3" where
  "reciprocal m =
     (case m of ((a, b, c), (d, e, f), (g, h, i)) \<Rightarrow>
        let dt = det m in
        (((e * i - f * h) / dt, (f * g - d * i) / dt, (d * h - e * g) / dt),
         ((c * h - b * i) / dt, (a * i - c * g) / dt, (b * g - a * h) / dt),
         ((b * f - c * e) / dt, (c * d - a * f) / dt, (a * e - b * d) / dt)))"

definition lengthsqr :: "vec3 \<Rightarrow> rat" where
  "lengthsqr v = (case v of (x, y, z) \<Rightarrow> x * x + y * y + z * z)"

definition singular_message :: string where
  "singular_message = ''vasp_if.calculate_kpoints: Error in VASP_KPOINTSLINE: singular cell vectors. POSCAR is broken.''"

text \<open>
  \<open>calculate_kpoints\<close>. The floating-point expression
  \<open>int(math.ceil(math.sqrt(x)*dens+half)+0.1)\<close> is the parameter \<open>mesh\<close>, a function of
  \<open>dens\<close> and of the squared length \<open>x\<close>; it is \<open>None\<close> when the float arithmetic raises,
  as the conversion of a fraction beyond the range of a double does (\<open>OverflowError\<close>).
\<close>

definition calculate_kpoints ::
  "('d \<Rightarrow> rat \<Rightarrow> int option) \<Rightarrow> crystal \<Rightarrow> 'd \<Rightarrow> error + (int \<times> int \<times> int)" where
  "calculate_kpoints mesh struct dens =
     (let basis = uc_basis struct; celldet = det basis; cellvol = \<bar>celldet\<bar> in
      if cellvol = 0 then Inl (Exception singular_message)
      else
        (case reciprocal basis of (r0, r1, r2) \<Rightarrow>
           (case mesh dens (lengthsqr r0) of
              None \<Rightarrow> Inl OverflowError
            | Some N1 \<Rightarrow>
           (case mesh dens (lengthsqr r1) of
              None \<Rightarrow> Inl OverflowError
            | Some N2 \<Rightarrow>
           (case mesh dens (lengthsqr r2) of
              None \<Rightarrow> Inl OverflowError
            | Some N3 \<Rightarrow> Inr (max 1 N1, max 1 N2, max 1 N3))))))"






section \<open>Properties of the pseudopotential resolver\<close>

lemma pseudo_loop_skip:
  "\<forall>q \<in> set pre. \<not> path_exists env (path_join p species @ q) \<Longrightarrow>
   pseudo_loop env p species (pre @ rest) = pseudo_loop env p species rest"
  by (induction pre) (simp_all add: Let_def)

lemma pseudo_loop_first:
  assumes "\<forall>q \<in> set pre. \<not> path_exists env (path_join p species @ q)"
    and "path_exists env (path_join p species @ s)"
  shows "pseudo_loop env p species (pre @ s # post) =
     (case read_file env (path_join (path_join p species @ s) ''POTCAR'') of
        Some data \<Rightarrow> Inr data
      | None \<Rightarrow> Inl (IOError (path_join (path_join p species @ s) ''POTCAR'')))"
  using assms by (simp add: pseudo_loop_skip Let_def)

lemma pseudo_loop_none:
  "\<forall>q \<in> set ps. \<not> path_exists env (path_join p species @ q) \<Longrightarrow>
   pseudo_loop env p species ps = Inl (Exception (not_found_message @ species))"
  using pseudo_loop_skip [of ps env p species "[]"] by simp

text \<open>
  Claim C6. Once the library path is settled, \<open>get_pseudopotential\<close> answers with the
  \<open>POTCAR\<close> of the first suffix of \<open>_3, _2, _d, _pv, _sv, "", _h, _s\<close> whose
  path \<open>species + suffix\<close> exists (every earlier suffix being absent), never with a later
  one; a \<open>POTCAR\<close> that cannot be read there is raised, not skipped. When no suffix
  exists the call fails with the message that ends in the species.
\<close>

theorem get_pseudopotential_priority:
  assumes "resolve_poscarspath env poscarspath = Some p"
  shows "(\<forall>pre s post.
            priorities = pre @ s # post \<longrightarrow>
            (\<forall>q \<in> set pre. \<not> path_exists env (path_join (expanduser env p) species @ q)) \<longrightarrow>
            path_exists env (path_join (expanduser env p) species @ s) \<longrightarrow>
            get_pseudopotential env species poscarspath =
              (case read_file env (path_join (path_join (expanduser env p) species @ s) ''POTCAR'') of
                 Some data \<Rightarrow> Inr data
               | None \<Rightarrow> Inl (IOError
                           (path_join (path_join (expanduser env p) species @ s) ''POTCAR''))))
       \<and> ((\<forall>q \<in> set priorities. \<not> path_exists env (path_join (expanduser env p) species @ q)) \<longrightarrow>
            get_pseudopotential env species poscarspath = Inl (Exception (not_found_message @ species)))"
proof (intro conjI allI impI)
  fix pre s post
  assume split: "priorities = pre @ s # post"
    and earlier: "\<forall>q \<in> set pre. \<not> path_exists env (path_join (expanduser env p) species @ q)"
    and here: "path_exists env (path_join (expanduser env p) species @ s)"
  have "get_pseudopotential env species poscarspath =
      pseudo_loop env (expanduser env p) species (pre @ s # post)"
    using assms by (simp add: get_pseudopotential_def split)
  then show "get_pseudopotential env species poscarspath =
      (case read_file env (path_join (path_join (expanduser env p) species @ s) ''POTCAR'') of
         Some data \<Rightarrow> Inr data
       | None \<Rightarrow> Inl (IOError (path_join (path_join (expanduser env p) species @ s) ''POTCAR'')))"
    by (simp only: pseudo_loop_first [OF earlier here])
next
  assume "\<forall>q \<in> set priorities. \<not> path_exists env (path_join (expanduser env p) species @ q)"
  then show "get_pseudopotential env species poscarspath = Inl (Exception (not_found_message @ species))"
    using assms by (simp add: get_pseudopotential_def pseudo_loop_none)
qed

theorem get_pseudopotential_priority_witness:
  "get_pseudopotential lib0 ''Fe'' None = Inr ''PV''
   \<and> get_pseudopotential lib0 ''Co'' None =
       Inl (Exception ''httk.iface.vasp_if.get_pseudopotentials: could not find a suitable pseudopotential for Co'')"
proof -
  have r: "resolve_poscarspath lib0 None = Some ''/lib''"
    by (simp add: resolve_poscarspath_def lib0_def)
  note t = get_pseudopotential_priority [OF r]
  have a: "get_pseudopotential lib0 ''Fe'' None = Inr ''PV''"
    using t [of "''Fe''", THEN conjunct1, THEN spec, THEN spec, THEN spec,
        of "[''_3'', ''_2'', ''_d'']" "''_pv''" "[''_sv'', '''', ''_h'', ''_s'']"]
    by (simp add: priorities_def lib0_def path_join_def)
  have b: "get_pseudopotential lib0 ''Co'' None = Inl (Exception (not_found_message @ ''Co''))"
    using t [of "''Co''", THEN conjunct2]
    by (simp add: priorities_def lib0_def path_join_def)
  from a b show ?thesis by (simp add: not_found_message_def)
qed

section \<open>Properties of the magnetic enumerator\<close>

lemma fold_mag_step:
  "n \<le> length ionlist \<Longrightarrow>
   fold (mag_step ionlist high low) [0..<n] ([], []) =
     (map (classify ionlist high low) (take n ionlist),
      filter (\<lambda>i. is_dualmagnetic (ionlist ! i) ionlist) [0..<n])"
proof (induction n)
  case 0
  show ?case by simp
next
  case (Suc n)
  then have n: "n < length ionlist" by simp
  with Suc show ?case
    by (simp add: mag_step_def classify_def take_Suc_conv_app_nth)
qed

lemma magnetization_recurse_enum:
  "\<forall>i \<in> set d. i < length base \<Longrightarrow>
   magnetization_recurse base d high low = Inr (enumerate_branches base (rev d) high low)"
proof (induction d arbitrary: base rule: rev_induct)
  case Nil
  show ?case by (simp add: magnetization_recurse.simps)
next
  case (snoc i d)
  have i: "i < length base" using snoc.prems by simp
  have d: "\<And>b. length b = length base \<Longrightarrow> \<forall>j \<in> set d. j < length b" using snoc.prems by simp
  show ?case
    using i by (subst magnetization_recurse.simps) (simp add: Let_def snoc.IH d)
qed

lemma length_enumerate_branches:
  "length (enumerate_branches base d high low) = 2 ^ length d"
  by (induction d arbitrary: base) simp_all

lemma enumerate_branches_entries:
  "a \<in> set (enumerate_branches base d high low) \<Longrightarrow>
   length a = length base \<and> (\<forall>j < length base. a ! j = None \<longrightarrow> base ! j = None \<and> j \<notin> set d)"
proof (induction d arbitrary: base)
  case Nil
  then show ?case by simp
next
  case (Cons i d)
  from Cons.prems consider
    "a \<in> set (enumerate_branches (base[i := Some high]) d high low)"
    | "a \<in> set (enumerate_branches (base[i := Some low]) d high low)" by auto
  then obtain v where ih: "length a = length base"
    "\<And>j. j < length base \<Longrightarrow> a ! j = None \<Longrightarrow> base[i := Some v] ! j = None \<and> j \<notin> set d"
    using Cons.IH by (cases; fastforce)
  have "base ! j = None \<and> j \<notin> set (i # d)" if "j < length base" "a ! j = None" for j
    using ih(2) [OF that] that(1) by (cases "j = i") auto
  with ih(1) show ?case by blast
qed

lemma classify_None: "classify ionlist high low ion = None \<longleftrightarrow> is_dualmagnetic ion ionlist"
  by (simp add: classify_def)

lemma get_magnetizations_eq:
  "get_magnetizations ionlist high low =
     Inr (enumerate_branches (map (classify ionlist high low) ionlist) (rev (dual_indices ionlist)) high low)"
proof -
  have "fold (mag_step ionlist high low) [0..<length ionlist] ([], []) =
      (map (classify ionlist high low) ionlist, dual_indices ionlist)"
    using fold_mag_step [of "length ionlist" ionlist high low] by (simp add: dual_indices_def)
  moreover have "\<forall>i \<in> set (dual_indices ionlist). i < length (map (classify ionlist high low) ionlist)"
    by (simp add: dual_indices_def)
  ultimately show ?thesis
    by (simp add: get_magnetizations_def magnetization_recurse_enum)
qed

lemma no_unresolved:
  assumes "a \<in> set (enumerate_branches (map (classify ionlist high low) ionlist) (rev (dual_indices ionlist)) high low)"
  shows "length a = length ionlist \<and> None \<notin> set a"
proof -
  from enumerate_branches_entries [OF assms]
  have len: "length a = length ionlist"
    and ent: "\<And>j. j < length ionlist \<Longrightarrow> a ! j = None \<Longrightarrow>
       classify ionlist high low (ionlist ! j) = None \<and> j \<notin> set (dual_indices ionlist)"
    by auto
  have "a ! j \<noteq> None" if "j < length a" for j
  proof
    assume "a ! j = None"
    with ent [of j] that len have "is_dualmagnetic (ionlist ! j) ionlist" "j \<notin> set (dual_indices ionlist)"
      by (auto simp: classify_None)
    with that len show False by (simp add: dual_indices_def)
  qed
  then have "None \<notin> set a" by (metis in_set_conv_nth)
  with len show ?thesis by simp
qed

lemma no_duals_classify:
  assumes "dual_indices ionlist = []"
  shows "map (classify ionlist high low) ionlist =
         map (\<lambda>ion. Some (if ion \<in> set magions then high else low)) ionlist"
proof (rule map_cong [OF refl])
  fix ion assume "ion \<in> set ionlist"
  then obtain j where j: "j < length ionlist" "ionlist ! j = ion" by (auto simp: in_set_conv_nth)
  have "\<not> is_dualmagnetic ion ionlist"
  proof
    assume "is_dualmagnetic ion ionlist"
    with j have "j \<in> set (dual_indices ionlist)" by (simp add: dual_indices_def)
    with assms show False by simp
  qed
  then show "classify ionlist high low ion = Some (if ion \<in> set magions then high else low)"
    by (simp add: classify_def)
qed

lemma enumerate_branches_untouched:
  "a \<in> set (enumerate_branches base d high low) \<Longrightarrow> i \<notin> set d \<Longrightarrow> a ! i = base ! i"
proof (induction d arbitrary: base)
  case Nil
  then show ?case by simp
next
  case (Cons j d)
  then have ij: "i \<noteq> j" "i \<notin> set d" by auto
  from Cons.prems(1) consider
    "a \<in> set (enumerate_branches (base[j := Some high]) d high low)"
    | "a \<in> set (enumerate_branches (base[j := Some low]) d high low)" by auto
  then show ?case
    using Cons.IH ij by cases (auto simp: nth_list_update_neq)
qed

lemma enumerate_branches_bits:
  assumes "distinct d" and "\<forall>i \<in> set d. i < length base"
    and "j < 2 ^ length d" and "m < length d"
  shows "enumerate_branches base d high low ! j ! (d ! m) =
           Some (if bit j (length d - 1 - m) then low else high)"
  using assms
proof (induction d arbitrary: base j m)
  case Nil
  then show ?case by simp
next
  case (Cons i d)
  let ?n = "length d"
  let ?hi = "enumerate_branches (base[i := Some high]) d high low"
  let ?lo = "enumerate_branches (base[i := Some low]) d high low"
  have len: "length ?hi = 2 ^ ?n" "length ?lo = 2 ^ ?n" by (simp_all add: length_enumerate_branches)
  have d: "distinct d" "i \<notin> set d" "i < length base" using Cons.prems by auto
  have inb: "\<forall>k \<in> set d. k < length (base[i := Some v])" for v using Cons.prems(2) by simp
  show ?case
  proof (cases "j < 2 ^ ?n")
    case True
    then have j: "(?hi @ ?lo) ! j = ?hi ! j"
      by (simp add: nth_append len)
    have nb: "\<not> bit j ?n" using True by (simp add: bit_iff_odd)
    show ?thesis
    proof (cases m)
      case 0
      have "?hi ! j \<in> set ?hi" using True len by simp
      from enumerate_branches_untouched [OF this d(2)] d(3) nb
      show ?thesis by (simp add: j 0)
    next
      case (Suc m')
      then have m': "m' < ?n" using Cons.prems(4) by simp
      from Cons.IH [OF d(1) inb True m'] show ?thesis
        using Suc m' by (simp add: j)
    qed
  next
    case False
    define j' where "j' = j - 2 ^ ?n"
    have j': "j' < 2 ^ ?n" "j = 2 ^ ?n + j'" using False Cons.prems(3) by (simp_all add: j'_def)
    have jj: "(?hi @ ?lo) ! j = ?lo ! j'"
      using False by (simp add: nth_append len j'_def)
    have top: "bit j ?n"
      using j' by (simp add: bit_iff_odd)
    have low_bits: "bit j k = bit j' k" if "k < ?n" for k
    proof -
      have "j div 2 ^ k = 2 ^ (?n - k) + j' div 2 ^ k"
        using that j'(2)
        by (metis add.commute div_mult_self4 le_add_diff_inverse2 less_imp_le_nat power_add
            power_not_zero zero_neq_numeral mult.commute)
      moreover have "even ((2::nat) ^ (?n - k))" using that by simp
      ultimately show ?thesis by (simp add: bit_iff_odd)
    qed
    show ?thesis
    proof (cases m)
      case 0
      have "?lo ! j' \<in> set ?lo" using j' len by simp
      from enumerate_branches_untouched [OF this d(2)] d(3) top
      show ?thesis by (simp add: jj 0)
    next
      case (Suc m')
      then have m': "m' < ?n" using Cons.prems(4) by simp
      from Cons.IH [OF d(1) inb j'(1) m'] show ?thesis
        using Suc m' low_bits [of "?n - 1 - m'"] by (simp add: jj)
    qed
  qed
qed

lemma get_magnetizations_order:
  assumes "j < 2 ^ length (dual_indices ionlist)"
  shows "\<forall>m < length (dual_indices ionlist).
           enumerate_branches (map (classify ionlist high low) ionlist)
               (rev (dual_indices ionlist)) high low ! j ! (dual_indices ionlist ! m)
             = Some (if bit j m then low else high)"
proof (intro allI impI)
  fix m assume m: "m < length (dual_indices ionlist)"
  let ?d = "rev (dual_indices ionlist)"
  let ?k = "length (dual_indices ionlist)"
  have 1: "distinct ?d" by (simp add: dual_indices_def)
  have 2: "\<forall>i \<in> set ?d. i < length (map (classify ionlist high low) ionlist)"
    by (simp add: dual_indices_def)
  have 3: "j < 2 ^ length ?d" using assms by simp
  have 4: "?k - 1 - m < length ?d" using m by simp
  have 5: "?d ! (?k - 1 - m) = dual_indices ionlist ! m" using m by (simp add: rev_nth)
  have 6: "length ?d - 1 - (?k - 1 - m) = m" using m by simp
  from enumerate_branches_bits [OF 1 2 3 4, of high low] show
    "enumerate_branches (map (classify ionlist high low) ionlist) ?d high low ! j
        ! (dual_indices ionlist ! m) = Some (if bit j m then low else high)"
    by (simp only: 5 6)
qed

lemma get_magnetizations_others:
  assumes "j < 2 ^ length (dual_indices ionlist)" and "i < length ionlist"
    and "i \<notin> set (dual_indices ionlist)"
  shows "enumerate_branches (map (classify ionlist high low) ionlist)
             (rev (dual_indices ionlist)) high low ! j ! i
           = Some (if ionlist ! i \<in> set magions then high else low)"
proof -
  let ?r = "enumerate_branches (map (classify ionlist high low) ionlist)
             (rev (dual_indices ionlist)) high low"
  have mem: "?r ! j \<in> set ?r" using assms(1) by (simp add: length_enumerate_branches)
  have "i \<notin> set (rev (dual_indices ionlist))" using assms(3) by simp
  from enumerate_branches_untouched [OF mem this]
  have "?r ! j ! i = map (classify ionlist high low) ionlist ! i" .
  moreover have "\<not> is_dualmagnetic (ionlist ! i) ionlist"
    using assms(2,3) by (simp add: dual_indices_def)
  ultimately show ?thesis using assms(2) by (simp add: classify_def)
qed

text \<open>
  Claim C5. For an ion list with \<open>k\<close> dual ions \<open>get_magnetizations\<close> returns
  \<open>2 ^ k\<close> assignments: the depth-first enumeration that branches on the dual indices
  from the last one to the first, the high branch before the low one. In the assignment
  number \<open>j\<close> the \<open>m\<close>-th dual ion is low exactly when bit \<open>m\<close> of \<open>j\<close> is set, and
  every other ion has its direct classification (high for a species of \<open>magions\<close>, low
  otherwise). No assignment has an unresolved entry, and with no dual ion the only
  assignment is the direct classification.
\<close>

theorem get_magnetizations_enumerates:
  "\<exists>r. get_magnetizations ionlist high low = Inr r
     \<and> length r = 2 ^ length (dual_indices ionlist)
     \<and> r = enumerate_branches (map (classify ionlist high low) ionlist)
             (rev (dual_indices ionlist)) high low
     \<and> (\<forall>j < length r. \<forall>m < length (dual_indices ionlist).
            r ! j ! (dual_indices ionlist ! m) = Some (if bit j m then low else high))
     \<and> (\<forall>j < length r. \<forall>i < length ionlist. i \<notin> set (dual_indices ionlist) \<longrightarrow>
            r ! j ! i = Some (if ionlist ! i \<in> set magions then high else low))
     \<and> (\<forall>a \<in> set r. length a = length ionlist \<and> None \<notin> set a)
     \<and> (dual_indices ionlist = [] \<longrightarrow>
          r = [map (\<lambda>ion. Some (if ion \<in> set magions then high else low)) ionlist])"
proof -
  let ?r = "enumerate_branches (map (classify ionlist high low) ionlist) (rev (dual_indices ionlist)) high low"
  have 1: "get_magnetizations ionlist high low = Inr ?r" by (rule get_magnetizations_eq)
  have 2: "length ?r = 2 ^ length (dual_indices ionlist)" by (simp add: length_enumerate_branches)
  have 3: "\<forall>a \<in> set ?r. length a = length ionlist \<and> None \<notin> set a" by (intro ballI no_unresolved)
  have 4: "dual_indices ionlist = [] \<longrightarrow>
          ?r = [map (\<lambda>ion. Some (if ion \<in> set magions then high else low)) ionlist]"
    by (auto simp: no_duals_classify)
  have 5: "\<forall>j < length ?r. \<forall>m < length (dual_indices ionlist).
            ?r ! j ! (dual_indices ionlist ! m) = Some (if bit j m then low else high)"
    using get_magnetizations_order [of _ ionlist high low] by (simp only: 2) blast
  have 6: "\<forall>j < length ?r. \<forall>i < length ionlist. i \<notin> set (dual_indices ionlist) \<longrightarrow>
            ?r ! j ! i = Some (if ionlist ! i \<in> set magions then high else low)"
    using get_magnetizations_others [of _ ionlist _ high low] by (simp only: 2) blast
  from 1 2 3 4 5 6 show ?thesis by blast
qed

theorem get_magnetizations_enumerates_witness:
  "get_magnetizations [''Co'', ''O'', ''Fe'', ''S''] (5::int) 1 =
     Inr [[Some 5, Some 1, Some 5, Some 1], [Some 1, Some 1, Some 5, Some 1],
          [Some 5, Some 1, Some 1, Some 1], [Some 1, Some 1, Some 1, Some 1]]"
  using get_magnetizations_enumerates [of "[''Co'', ''O'', ''Fe'', ''S'']" "5::int" 1]
  by (simp add: dual_indices_def classify_def dualmag_def magions_def upt_rec)

section \<open>Properties of the string functions\<close>

subsection \<open>Splitting a line of tokens\<close>

lemma dropWhile_none: "\<forall>c \<in> set s. \<not> P c \<Longrightarrow> dropWhile P s = s"
  by (cases s) simp_all

lemma strip_no_space: "\<forall>c \<in> set s. \<not> is_space c \<Longrightarrow> strip s = s"
  by (simp add: strip_def dropWhile_none)

lemma split_from_token:
  "\<forall>c \<in> set t. \<not> is_space c \<Longrightarrow> split_from cur (t @ rest) = split_from (cur @ t) rest"
  by (induction t arbitrary: cur) simp_all

lemma split_from_spaces:
  "\<forall>c \<in> set ws. is_space c \<Longrightarrow> split_from [] (ws @ rest) = split_from [] rest"
  by (induction ws) simp_all

lemma split_from_spaces_end:
  "\<forall>c \<in> set ws. is_space c \<Longrightarrow> split_from cur (s @ ws) = split_from cur s"
proof (induction s arbitrary: cur)
  case Nil
  show ?case
  proof (cases ws)
    case Nil then show ?thesis by simp
  next
    case (Cons w ws')
    with Nil.prems have "is_space w" "\<forall>c \<in> set ws'. is_space c" by simp_all
    then show ?thesis using Cons split_from_spaces [of ws' "[]"] by simp
  qed
next
  case (Cons c s)
  then show ?case by simp
qed

lemma strip_decompose:
  "\<exists>ws1 ws2. s = ws1 @ strip s @ ws2 \<and> (\<forall>c \<in> set ws1. is_space c) \<and> (\<forall>c \<in> set ws2. is_space c)"
proof -
  let ?d = "dropWhile is_space s"
  have 1: "s = takeWhile is_space s @ ?d" by simp
  have 2: "?d = strip s @ rev (takeWhile is_space (rev ?d))"
  proof -
    have "rev (takeWhile is_space (rev ?d) @ dropWhile is_space (rev ?d)) = rev (rev ?d)"
      by (simp only: takeWhile_dropWhile_id)
    then have "rev (dropWhile is_space (rev ?d)) @ rev (takeWhile is_space (rev ?d)) = ?d"
      by (simp only: rev_append rev_rev_ident)
    then show ?thesis by (simp only: strip_def)
  qed
  have 3: "\<forall>c \<in> set (takeWhile is_space s). is_space c" by (auto dest: set_takeWhileD)
  have 4: "\<forall>c \<in> set (rev (takeWhile is_space (rev ?d))). is_space c" by (auto dest: set_takeWhileD)
  from 1 2 have "s = takeWhile is_space s @ strip s @ rev (takeWhile is_space (rev ?d))" by simp
  with 3 4 show ?thesis by blast
qed

lemma split_strip: "split (strip s) = split s"
proof -
  obtain ws1 ws2 where s: "s = ws1 @ strip s @ ws2"
    and w1: "\<forall>c \<in> set ws1. is_space c" and w2: "\<forall>c \<in> set ws2. is_space c"
    using strip_decompose by blast
  have "split s = split_from [] (ws1 @ strip s @ ws2)" using s by (simp add: split_def)
  also have "\<dots> = split_from [] (strip s @ ws2)" by (rule split_from_spaces [OF w1])
  also have "\<dots> = split_from [] (strip s)" by (rule split_from_spaces_end [OF w2])
  finally show ?thesis by (simp add: split_def)
qed

lemma split_from_tokens:
  assumes "\<forall>t \<in> set ts. is_token t" and "\<forall>c \<in> set ws. is_space c"
  shows "split_from [] (concat (map (\<lambda>t. t @ '' '') ts) @ ws) = ts"
  using assms(1)
proof (induction ts)
  case Nil
  show ?case using split_from_spaces_end [OF assms(2), of "[]" "[]"] by simp
next
  case (Cons t ts)
  then have t: "t \<noteq> []" "\<forall>c \<in> set t. \<not> is_space c" by (simp_all add: is_token_def)
  have sp: "is_space CHR '' ''" by (simp add: is_space_def)
  have "split_from [] ((t @ '' '') @ concat (map (\<lambda>t. t @ '' '') ts) @ ws)
      = split_from t (CHR '' '' # concat (map (\<lambda>t. t @ '' '') ts) @ ws)"
    using split_from_token [OF t(2), of "[]"] by simp
  also have "\<dots> = t # split_from [] (concat (map (\<lambda>t. t @ '' '') ts) @ ws)"
    using t(1) sp by simp
  finally show ?case using Cons by simp
qed

lemma split_row:
  assumes "is_token c1" "is_token c2" "is_token c3"
  shows "split (strip (c1 @ '' '' @ c2 @ '' '' @ c3 @ [CHR 0x0A])) = [c1, c2, c3]"
proof -
  have nl: "is_space (CHR 0x0A)" and sp: "is_space CHR '' ''" by (simp_all add: is_space_def)
  from assms have t: "c1 \<noteq> []" "c2 \<noteq> []" "c3 \<noteq> []"
    "\<forall>c \<in> set c1. \<not> is_space c" "\<forall>c \<in> set c2. \<not> is_space c" "\<forall>c \<in> set c3. \<not> is_space c"
    by (simp_all add: is_token_def)
  have "split_from [] (c1 @ '' '' @ c2 @ '' '' @ c3 @ [CHR 0x0A])
      = split_from c1 (CHR '' '' # c2 @ '' '' @ c3 @ [CHR 0x0A])"
    using split_from_token [OF t(4), of "[]"] by simp
  also have "\<dots> = c1 # split_from [] (c2 @ '' '' @ c3 @ [CHR 0x0A])" using t(1) sp by simp
  also have "split_from [] (c2 @ '' '' @ c3 @ [CHR 0x0A]) = split_from c2 (CHR '' '' # c3 @ [CHR 0x0A])"
    using split_from_token [OF t(5), of "[]"] by simp
  also have "\<dots> = c2 # split_from [] (c3 @ [CHR 0x0A])" using t(2) sp by simp
  also have "split_from [] (c3 @ [CHR 0x0A]) = split_from c3 [CHR 0x0A]"
    using split_from_token [OF t(6), of "[]"] by simp
  also have "\<dots> = [c3]" using t(3) nl by simp
  finally have "split_from [] (c1 @ '' '' @ c2 @ '' '' @ c3 @ [CHR 0x0A]) = [c1, c2, c3]" .
  then show ?thesis using split_strip [of "c1 @ '' '' @ c2 @ '' '' @ c3 @ [CHR 0x0A]"]
    by (simp only: split_def)
qed

subsection \<open>\<open>int(str(n))\<close> gives \<open>n\<close> back\<close>

lemma digit_char_props:
  assumes "d < 10"
  shows "is_digit (digit_char d)" "digit_val (digit_char d) = d" "\<not> is_space (digit_char d)"
    "digit_char d \<noteq> CHR ''_''" "digit_char d \<noteq> CHR ''-''" "digit_char d \<noteq> CHR ''+''"
proof -
  have oc: "(of_char (digit_char d) :: nat) = 48 + d" using assms by (simp add: digit_char_def)
  show "is_digit (digit_char d)" using assms by (simp add: is_digit_def oc)
  show "digit_val (digit_char d) = d" by (simp add: digit_val_def oc)
  show "\<not> is_space (digit_char d)" using assms by (simp add: is_space_def oc)
  have "(of_char (digit_char d) :: nat) \<noteq> of_char CHR ''_''" using assms by (simp add: oc)
  then show "digit_char d \<noteq> CHR ''_''" by metis
  have "(of_char (digit_char d) :: nat) \<noteq> of_char CHR ''-''" using assms by (simp add: oc)
  then show "digit_char d \<noteq> CHR ''-''" by metis
  have "(of_char (digit_char d) :: nat) \<noteq> of_char CHR ''+''" using assms by (simp add: oc)
  then show "digit_char d \<noteq> CHR ''+''" by metis
qed

lemma str_nat_digits: "str_nat n \<noteq> [] \<and> (\<forall>c \<in> set (str_nat n). is_digit c \<and> \<not> is_space c \<and> c \<noteq> CHR ''_'')
   \<and> hd (str_nat n) \<noteq> CHR ''-'' \<and> hd (str_nat n) \<noteq> CHR ''+''"
proof (induction n rule: str_nat.induct)
  case (1 n)
  show ?case
  proof (cases "n < 10")
    case True
    then show ?thesis by (subst (1 2 3 4) str_nat.simps) (simp add: digit_char_props)
  next
    case False
    then have m: "n mod 10 < 10" by simp
    from False 1 show ?thesis
      by (subst (1 2 3 4) str_nat.simps) (auto simp: digit_char_props [OF m])
  qed
qed

lemma digits_ok_all: "s \<noteq> [] \<Longrightarrow> \<forall>c \<in> set s. is_digit c \<and> c \<noteq> CHR ''_'' \<Longrightarrow> digits_ok s"
  by (induction s rule: digits_ok.induct) auto

lemma digits_value_snoc:
  "c \<noteq> CHR ''_'' \<Longrightarrow> digits_value (s @ [c]) = 10 * digits_value s + digit_val c"
  by (simp add: digits_value_def)

lemma digits_value_str_nat: "digits_value (str_nat n) = n"
proof (induction n rule: str_nat.induct)
  case (1 n)
  show ?case
  proof (cases "n < 10")
    case True
    then show ?thesis by (subst str_nat.simps) (simp add: digits_value_def digit_char_props)
  next
    case False
    then have m: "n mod 10 < 10" by simp
    from False 1 show ?thesis
      by (subst str_nat.simps) (simp add: digits_value_snoc digit_char_props [OF m])
  qed
qed

lemma py_int_unsigned:
  "strip s = s \<Longrightarrow> digits_ok s \<Longrightarrow> hd s \<noteq> CHR ''-'' \<Longrightarrow> hd s \<noteq> CHR ''+'' \<Longrightarrow>
   py_int s = Some (int (digits_value s))"
  by (cases s) (simp_all add: py_int_def)

lemma py_int_negative:
  "strip (CHR ''-'' # r) = CHR ''-'' # r \<Longrightarrow> digits_ok r \<Longrightarrow>
   py_int (CHR ''-'' # r) = Some (- int (digits_value r))"
  by (simp add: py_int_def)

lemma py_int_str_int: "py_int (str_int n) = Some n"
proof -
  have tok: "\<forall>c \<in> set (str_nat m). \<not> is_space c" for m using str_nat_digits by blast
  have ok: "digits_ok (str_nat m)" for m using str_nat_digits [of m] by (intro digits_ok_all) simp_all
  show ?thesis
  proof (cases "n < 0")
    case True
    have m: "\<not> is_space CHR ''-''" by (simp add: is_space_def)
    have "\<forall>c \<in> set (CHR ''-'' # str_nat (nat (- n))). \<not> is_space c"
      using tok [of "nat (- n)"] m by simp
    then have "strip (CHR ''-'' # str_nat (nat (- n))) = CHR ''-'' # str_nat (nat (- n))"
      by (rule strip_no_space)
    from py_int_negative [OF this ok]
    have "py_int (CHR ''-'' # str_nat (nat (- n))) = Some (- int (nat (- n)))"
      by (simp only: digits_value_str_nat)
    moreover have "- int (nat (- n)) = n" using True by simp
    moreover have "str_int n = CHR ''-'' # str_nat (nat (- n))" using True by (simp only: str_int_def if_True)
    ultimately show ?thesis by simp
  next
    case False
    have "strip (str_nat (nat n)) = str_nat (nat n)"
      using tok by (rule strip_no_space)
    moreover have "hd (str_nat (nat n)) \<noteq> CHR ''-''" "hd (str_nat (nat n)) \<noteq> CHR ''+''"
      using str_nat_digits [of "nat n"] by blast+
    ultimately have "py_int (str_nat (nat n)) = Some (int (digits_value (str_nat (nat n))))"
      using ok by (intro py_int_unsigned)
    then have "py_int (str_nat (nat n)) = Some (int (nat n))"
      by (simp only: digits_value_str_nat)
    moreover have "int (nat n) = n" using False by simp
    moreover have "str_int n = str_nat (nat n)" using False by (simp only: str_int_def if_False)
    ultimately show ?thesis by simp
  qed
qed

lemma str_int_token: "is_token (str_int n)"
  using str_nat_digits by (auto simp: is_token_def str_int_def is_space_def)

lemma map_int_str_int: "map_int (map str_int ns) = Some ns"
  by (induction ns) (simp_all add: py_int_str_int)

section \<open>A stream cut short\<close>

lemma consumesD:
  "consumes R fi x k \<Longrightarrow> R (take m fi) = (if m < k then Inl StopIteration else Inr (x, take (m - k) (drop k fi)))"
  by (simp add: consumes_def)

lemma next_line_rest: "next_line fi = Inr (l, rest) \<Longrightarrow> fi = l # rest"
  by (cases fi) (auto simp: next_line_def)

lemma read_cell_consumes:
  "read_cell n fi = Inr (rows, rest) \<Longrightarrow> consumes (read_cell n) fi rows n \<and> rest = drop n fi"
proof (induction n arbitrary: fi rows rest)
  case 0
  then show ?case by (auto simp: consumes_def)
next
  case (Suc n)
  from Suc.prems obtain l fi1 row rows' where
    nl: "next_line fi = Inr (l, fi1)" and row: "cell_row (split (strip l)) = Inr row"
    and rc: "read_cell n fi1 = Inr (rows', rest)" and rows: "rows = row # rows'"
    by (auto split: sum.splits)
  from Suc.IH [OF rc] have c: "consumes (read_cell n) fi1 rows' n" and r: "rest = drop n fi1" by auto
  have fi: "fi = l # fi1" using nl by (rule next_line_rest)
  have "read_cell (Suc n) (take m fi) =
      (if m < Suc n then Inl StopIteration else Inr (rows, take (m - Suc n) (drop (Suc n) fi)))" for m
  proof (cases m)
    case 0
    then show ?thesis by (simp add: next_line_def)
  next
    case (Suc m')
    then show ?thesis
      using consumesD [OF c, of m'] row by (simp add: fi next_line_def rows)
  qed
  moreover have "Suc n \<le> length fi" using c by (simp add: consumes_def fi)
  ultimately show ?case using r by (simp add: consumes_def fi)
qed

lemma read_coords_consumes:
  "read_coords d n fi = Inr (rows, rest) \<Longrightarrow>
   consumes (read_coords d n) fi rows n \<and> rest = drop n fi \<and> length rows = n"
proof (induction n arbitrary: fi rows rest)
  case 0
  then show ?case by (auto simp: consumes_def)
next
  case (Suc n)
  from Suc.prems obtain l fi1 rows' where
    nl: "next_line fi = Inr (l, fi1)"
    and rc: "read_coords d n fi1 = Inr (rows', rest)" and rows: "rows = coord_of_line d l # rows'"
    by (auto split: sum.splits)
  from Suc.IH [OF rc] have c: "consumes (read_coords d n) fi1 rows' n" and r: "rest = drop n fi1"
    and len: "length rows' = n" by auto
  have fi: "fi = l # fi1" using nl by (rule next_line_rest)
  have "read_coords d (Suc n) (take m fi) =
      (if m < Suc n then Inl StopIteration else Inr (rows, take (m - Suc n) (drop (Suc n) fi)))" for m
  proof (cases m)
    case 0
    then show ?thesis by (simp add: next_line_def)
  next
    case (Suc m')
    then show ?thesis
      using consumesD [OF c, of m'] by (simp add: fi next_line_def rows)
  qed
  moreover have "Suc n \<le> length fi" using c by (simp add: consumes_def fi)
  ultimately show ?case using r len by (simp add: consumes_def fi rows)
qed

lemma read_counts_consumes:
  assumes "read_counts numbers fi = Inr (x, rest)"
  shows "\<exists>k. consumes (read_counts numbers) fi x k \<and> rest = drop k fi \<and> 1 \<le> k"
proof -
  from assms obtain l fi1 where nl: "next_line fi = Inr (l, fi1)"
    by (auto simp: read_counts_def split: sum.splits)
  then have fi: "fi = l # fi1" by (rule next_line_rest)
  show ?thesis
  proof (cases "map_int (split (strip l))")
    case (Some cnts)
    with assms nl have x: "x = (cnts, map (\<lambda>i. - int (Suc i)) [0..<length cnts])" and r: "rest = fi1"
      by (auto simp: read_counts_def)
    have "read_counts numbers (take m fi) =
        (if m < 1 then Inl StopIteration else Inr (x, take (m - 1) (drop 1 fi)))" for m
      using Some by (cases m) (simp_all add: read_counts_def next_line_def fi x)
    then have "consumes (read_counts numbers) fi x 1" by (simp add: consumes_def fi)
    then show ?thesis using r fi by auto
  next
    case None
    with assms nl obtain l2 fi2 cnts occ where nl2: "next_line fi1 = Inr (l2, fi2)"
      and cn: "map_int (split (strip l2)) = Some cnts"
      and oc: "lookup_numbers numbers (split (strip l)) = Inr occ"
      and x: "x = (cnts, occ)" and r: "rest = fi2"
      by (auto simp: read_counts_def Let_def split: sum.splits option.splits)
    have fi1: "fi1 = l2 # fi2" using nl2 by (rule next_line_rest)
    have "read_counts numbers (take m fi) =
        (if m < 2 then Inl StopIteration else Inr (x, take (m - 2) (drop 2 fi)))" for m
    proof (cases m)
      case 0
      then show ?thesis by (simp add: read_counts_def next_line_def)
    next
      case (Suc m')
      then show ?thesis using None cn oc
        by (cases m') (simp_all add: read_counts_def next_line_def fi fi1 x)
    qed
    then have "consumes (read_counts numbers) fi x 2" by (simp add: consumes_def fi fi1)
    then show ?thesis using r fi fi1 by auto
  qed
qed

lemma read_coordtype_consumes:
  assumes "read_coordtype fi = Inr (x, rest)"
  shows "\<exists>k. consumes read_coordtype fi x k \<and> rest = drop k fi \<and> 1 \<le> k"
proof -
  from assms obtain l fi1 where nl: "next_line fi = Inr (l, fi1)"
    by (auto simp: read_coordtype_def split: sum.splits)
  then have fi: "fi = l # fi1" by (rule next_line_rest)
  from assms nl obtain c cs where l: "strip l = c # cs"
    by (cases "strip l") (auto simp: read_coordtype_def)
  show ?thesis
  proof (cases "c \<in> set ''Ss''")
    case False
    with assms nl l have r: "rest = fi1"
      by (auto simp: read_coordtype_def split: if_splits)
    have "read_coordtype (take m fi) =
        (if m < 1 then Inl StopIteration else Inr (x, take (m - 1) (drop 1 fi)))" for m
    proof (cases m)
      case 0
      then show ?thesis by (simp add: read_coordtype_def next_line_def)
    next
      case (Suc m')
      then show ?thesis using False assms l
        by (auto simp: read_coordtype_def next_line_def fi)
    qed
    then have "consumes read_coordtype fi x 1" by (simp add: consumes_def fi)
    then show ?thesis using r fi by auto
  next
    case True
    with assms nl l obtain l2 fi2 where nl2: "next_line fi1 = Inr (l2, fi2)" and r: "rest = fi2"
      by (auto simp: read_coordtype_def split: sum.splits list.splits)
    have fi1: "fi1 = l2 # fi2" using nl2 by (rule next_line_rest)
    have "read_coordtype (take m fi) =
        (if m < 2 then Inl StopIteration else Inr (x, take (m - 2) (drop 2 fi)))" for m
    proof (cases m)
      case 0
      then show ?thesis by (simp add: read_coordtype_def next_line_def)
    next
      case (Suc m')
      then show ?thesis using True assms l
        by (cases m') (auto simp: read_coordtype_def next_line_def fi fi1 split: list.splits)
    qed
    then have "consumes read_coordtype fi x 2" by (simp add: consumes_def fi fi1)
    then show ?thesis using r fi fi1 by auto
  qed
qed

lemma poscar_to_strs_rest_consumes:
  assumes "poscar_to_strs_rest fn nums d fi = Inr (r, rest)"
  shows "\<exists>k. consumes (poscar_to_strs_rest fn nums d) fi r k \<and> rest = drop k fi
           \<and> 7 + nat (sum_list (counts r)) \<le> k \<and> length (coords r) = nat (sum_list (counts r))"
proof -
  from assms obtain l1 fi1 where n1: "next_line fi = Inr (l1, fi1)"
    by (auto simp: poscar_to_strs_rest_def split: sum.splits)
  from assms n1 obtain l2 fi2 where n2: "next_line fi1 = Inr (l2, fi2)"
    by (auto simp: poscar_to_strs_rest_def split: sum.splits)
  from assms n1 n2 obtain negative where fl: "fn (strip l2) = Some negative"
    by (auto simp: poscar_to_strs_rest_def Let_def split: option.splits)
  from assms n1 n2 fl obtain cell_rows fi3 where rc: "read_cell 3 fi2 = Inr (cell_rows, fi3)"
    by (auto simp: poscar_to_strs_rest_def Let_def split: sum.splits)
  from assms n1 n2 fl rc obtain cnts occ fi4 where rn: "read_counts nums fi3 = Inr ((cnts, occ), fi4)"
    by (auto simp: poscar_to_strs_rest_def Let_def split: sum.splits)
  from assms n1 n2 fl rc rn obtain reduced fi5 where rt: "read_coordtype fi4 = Inr (reduced, fi5)"
    by (auto simp: poscar_to_strs_rest_def Let_def split: sum.splits)
  from assms n1 n2 fl rc rn rt obtain coord_rows where
    rd: "read_coords d (nat (sum_list cnts)) fi5 = Inr (coord_rows, rest)"
    and r: "r = \<lparr> cell = cell_rows,
                 scale = (if negative then None else Some (strip l2)),
                 vol = (if negative then Some (drop 1 (strip l2)) else None),
                 coords = coord_rows, coords_reduced = reduced, counts = cnts,
                 occupations = occ, comment = strip l1 \<rparr>"
    by (auto simp: poscar_to_strs_rest_def Let_def split: sum.splits)
  let ?N = "nat (sum_list cnts)"
  have fi: "fi = l1 # l2 # fi2" using n1 n2 by (auto dest: next_line_rest)
  from read_cell_consumes [OF rc] have c3: "consumes (read_cell 3) fi2 cell_rows 3"
    and fi3: "fi3 = drop 3 fi2" by auto
  from read_counts_consumes [OF rn] obtain kc where
    cc: "consumes (read_counts nums) fi3 (cnts, occ) kc" and fi4: "fi4 = drop kc fi3" and kc: "1 \<le> kc"
    by auto
  from read_coordtype_consumes [OF rt] obtain kt where
    ct: "consumes read_coordtype fi4 reduced kt" and fi5: "fi5 = drop kt fi4" and kt: "1 \<le> kt"
    by auto
  from read_coords_consumes [OF rd] have cd: "consumes (read_coords d ?N) fi5 coord_rows ?N"
    and rest: "rest = drop ?N fi5" and len: "length coord_rows = ?N" by auto
  have A: "read_cell 3 (take m fi2) =
      (if m < 3 then Inl StopIteration else Inr (cell_rows, take (m - 3) fi3))" for m
    using consumesD [OF c3, of m] by (simp add: fi3)
  have B: "read_counts nums (take m fi3) =
      (if m < kc then Inl StopIteration else Inr ((cnts, occ), take (m - kc) fi4))" for m
    using consumesD [OF cc, of m] by (simp add: fi4)
  have C: "read_coordtype (take m fi4) =
      (if m < kt then Inl StopIteration else Inr (reduced, take (m - kt) fi5))" for m
    using consumesD [OF ct, of m] by (simp add: fi5)
  have D: "read_coords d ?N (take m fi5) =
      (if m < ?N then Inl StopIteration else Inr (coord_rows, take (m - ?N) rest))" for m
    using consumesD [OF cd, of m] by (simp add: rest)
  define K where "K = 3 + kc + kt + ?N"
  let ?k = "Suc (Suc K)"
  have dropK: "drop K fi2 = rest"
    by (simp add: K_def rest fi5 fi4 fi3 add.commute add.left_commute)
  have tail: "poscar_to_strs_rest fn nums d (l1 # l2 # take m fi2) =
      (if m < K then Inl StopIteration else Inr (r, take (m - K) rest))" for m
  proof -
    have "m - 3 - kc - kt - ?N = m - K" by (simp add: K_def)
    moreover have "m < K \<longleftrightarrow>
        m < 3 \<or> m - 3 < kc \<or> m - 3 - kc < kt \<or> m - 3 - kc - kt < ?N" by (auto simp: K_def)
    ultimately show ?thesis
      by (simp add: poscar_to_strs_rest_def next_line_def fl A B C D r del: read_cell.simps)
  qed
  have "poscar_to_strs_rest fn nums d (take m fi) =
      (if m < ?k then Inl StopIteration else Inr (r, take (m - ?k) (drop ?k fi)))" for m
  proof (cases m)
    case 0
    then show ?thesis by (simp add: poscar_to_strs_rest_def next_line_def)
  next
    case (Suc m1)
    show ?thesis
    proof (cases m1)
      case 0
      with Suc show ?thesis by (simp add: poscar_to_strs_rest_def next_line_def fi)
    next
      case (Suc m2)
      with \<open>m = Suc m1\<close> show ?thesis
        using tail [of m2] dropK by (simp add: fi)
    qed
  qed
  moreover have "?k \<le> length fi"
  proof -
    have "?N \<le> length fi5" using cd by (simp add: consumes_def)
    moreover have "kt \<le> length fi4" using ct by (simp add: consumes_def)
    moreover have "kc \<le> length fi3" using cc by (simp add: consumes_def)
    moreover have "3 \<le> length fi2" using c3 by (simp add: consumes_def)
    ultimately show ?thesis by (simp add: K_def fi fi5 fi4 fi3)
  qed
  ultimately have "consumes (poscar_to_strs_rest fn nums d) fi r ?k" by (simp add: consumes_def)
  moreover have "rest = drop ?k fi" using dropK by (simp add: fi)
  moreover have "7 + nat (sum_list (counts r)) \<le> ?k" using kc kt by (simp add: r K_def)
  moreover have "length (coords r) = nat (sum_list (counts r))" using len by (simp add: r)
  ultimately show ?thesis by blast
qed

text \<open>
  Claim C9. Let a stream hold a complete record, which \<open>poscar_to_strs\<close> parses from
  its first \<open>length fi - length rest\<close> lines (comment, scale or volume, three cell rows,
  counts, coordinate type and the coordinate lines: at least seven plus the sum of the
  counts). Cut anywhere before the last of these lines, the stream makes
  \<open>poscar_to_strs\<close> end in \<open>StopIteration\<close>: no partial record is returned.
\<close>

theorem poscar_short_stream_stops:
  assumes "poscar_to_strs_rest float_neg numbers included_decimals fi = Inr (r, rest)"
    and "m < length fi - length rest"
  shows "poscar_to_strs float_neg numbers included_decimals (take m fi) = Inl StopIteration
         \<and> 7 + nat (sum_list (counts r)) \<le> length fi - length rest"
proof -
  from poscar_to_strs_rest_consumes [OF assms(1)] obtain k where
    c: "consumes (poscar_to_strs_rest float_neg numbers included_decimals) fi r k"
    and rest: "rest = drop k fi" and k: "7 + nat (sum_list (counts r)) \<le> k" by blast
  have kl: "k \<le> length fi" using c by (simp add: consumes_def)
  then have "length fi - length rest = k" by (simp add: rest)
  with assms(2) k consumesD [OF c, of m] show ?thesis
    by (simp add: poscar_to_strs_def)
qed

lemma sample_parse:
  "poscar_to_strs_rest sample_float_neg sample_numbers None (sample_stream ''Direct'')
     = Inr (sample_record False, [])"
  by code_simp

theorem poscar_short_stream_stops_witness:
  "poscar_to_strs sample_float_neg sample_numbers None (take 9 (sample_stream ''Direct''))
     = Inl StopIteration"
proof -
  have e: "poscar_to_strs_rest sample_float_neg sample_numbers None (sample_stream ''Direct'')
     = Inr (sample_record False, [])"
    by code_simp
  have m: "9 < length (sample_stream ''Direct'') - length ([] :: stream)"
    by (simp add: sample_stream_def)
  from poscar_short_stream_stops [OF e m] show ?thesis by simp
qed

section \<open>Writing a record and reading it back\<close>

lemma newline_space: "is_space (CHR 0x0A)"
  by (simp add: is_space_def)

lemma token_no_newline: "is_token t \<Longrightarrow> CHR 0x0A \<notin> set t"
  using newline_space by (auto simp: is_token_def)

lemma length3: "length row = 3 \<Longrightarrow> \<exists>c1 c2 c3. row = [c1, c2, c3]"
  by (cases row; simp; cases "tl row"; simp; cases "tl (tl row)"; simp)

lemma lines_from_line:
  "CHR 0x0A \<notin> set l \<Longrightarrow>
   lines_from cur (l @ CHR 0x0A # rest) = (cur @ l @ [CHR 0x0A]) # lines_from [] rest"
  by (induction l arbitrary: cur) auto

lemma write_rows_lines:
  assumes "\<forall>row \<in> set rows. good_row row"
  shows "\<exists>body. write_rows rows = Inr body
           \<and> (\<forall>rest. lines_from [] (body @ rest) = map row_line rows @ lines_from [] rest)"
  using assms
proof (induction rows)
  case Nil
  show ?case by simp
next
  case (Cons row rows)
  then obtain body where t: "write_rows rows = Inr body"
    and l: "\<And>rest. lines_from [] (body @ rest) = map row_line rows @ lines_from [] rest"
    by auto
  from Cons.prems have g: "good_row row" by simp
  then have "length row = 3" by (simp add: good_row_def)
  from length3 [OF this] obtain c1 c2 c3 where row: "row = [c1, c2, c3]" by blast
  with g have "CHR 0x0A \<notin> set (c1 @ '' '' @ c2 @ '' '' @ c3)"
    by (auto simp: good_row_def dest: token_no_newline)
  from lines_from_line [OF this, of "[]"]
  have "lines_from [] ((c1 @ '' '' @ c2 @ '' '' @ c3 @ [CHR 0x0A] @ body) @ rest) =
      row_line row # map row_line rows @ lines_from [] rest" for rest
    by (simp add: row row_line_def l)
  then show ?case using t by (simp add: row)
qed

lemma cell_row_good: "good_row row \<Longrightarrow> cell_row (split (strip (row_line row))) = Inr row"
proof -
  assume g: "good_row row"
  then have "length row = 3" by (simp add: good_row_def)
  from length3 [OF this] obtain c1 c2 c3 where row: "row = [c1, c2, c3]" by blast
  with g have "is_token c1" "is_token c2" "is_token c3" by (simp_all add: good_row_def)
  from split_row [OF this] show ?thesis by (simp add: row row_line_def cell_row_def)
qed

lemma token_strip: "is_token t \<Longrightarrow> strip t = t"
  by (simp add: is_token_def strip_no_space)

lemma coord_of_line_good: "good_row row \<Longrightarrow> coord_of_line None (row_line row) = row"
proof -
  assume g: "good_row row"
  then have "length row = 3" by (simp add: good_row_def)
  from length3 [OF this] obtain c1 c2 c3 where row: "row = [c1, c2, c3]" by blast
  with g have t: "is_token c1" "is_token c2" "is_token c3" by (simp_all add: good_row_def)
  from split_row [OF this] show ?thesis
    by (simp add: row row_line_def coord_of_line_def token_strip t)
qed

lemma read_cell_lines:
  "\<forall>row \<in> set rows. good_row row \<Longrightarrow>
   read_cell (length rows) (map row_line rows @ fi) = Inr (rows, fi)"
  by (induction rows) (simp_all add: next_line_def cell_row_good)

lemma read_coords_lines:
  "\<forall>row \<in> set rows. good_row row \<Longrightarrow>
   read_coords None (length rows) (map row_line rows @ fi) = Inr (rows, fi)"
  by (induction rows) (simp_all add: next_line_def coord_of_line_good)

lemma write_species_text:
  "\<forall>i \<in> set is. i < length (case occs of None \<Rightarrow> symbols | Some os \<Rightarrow> os) \<Longrightarrow>
   write_species symbols occs is =
     Inr (concat (map (\<lambda>t. t @ '' '') (map (\<lambda>i. (case occs of None \<Rightarrow> symbols | Some os \<Rightarrow> os) ! i) is)))"
  by (induction "is") (simp_all add: Let_def)

lemma map_nth_upt: "n \<le> length xs \<Longrightarrow> map (\<lambda>i. xs ! i) [0..<n] = take n xs"
  by (simp add: list_eq_iff_nth_eq)

lemma map_int_None: "\<exists>s \<in> set ts. py_int s = None \<Longrightarrow> map_int ts = None"
proof (induction ts)
  case Nil
  then show ?case by simp
next
  case (Cons t ts)
  show ?case
  proof (cases "py_int t")
    case None
    then show ?thesis by simp
  next
    case (Some n)
    with Cons.prems have "\<exists>s \<in> set ts. py_int s = None" by auto
    with Cons.IH Some show ?thesis by simp
  qed
qed

lemma lookup_numbers_dom:
  "\<forall>s \<in> set ts. s \<in> dom numbers \<Longrightarrow> lookup_numbers numbers ts = Inr (map (\<lambda>s. the (numbers s)) ts)"
  by (induction ts) auto

lemma split_token_line:
  assumes "\<forall>t \<in> set ts. is_token t"
  shows "split (strip (concat (map (\<lambda>t. t @ '' '') ts) @ [CHR 0x0A])) = ts"
proof -
  have "\<forall>c \<in> set [CHR 0x0A]. is_space c" using newline_space by simp
  from split_from_tokens [OF assms this] show ?thesis
    using split_strip [of "concat (map (\<lambda>t. t @ '' '') ts) @ [CHR 0x0A]"] by (simp only: split_def)
qed

lemma token_line_no_newline:
  "\<forall>t \<in> set ts. is_token t \<Longrightarrow> CHR 0x0A \<notin> set (concat (map (\<lambda>t. t @ '' '') ts))"
  by (auto dest: token_no_newline)

lemma write_counts_tokens: "write_counts cnts = concat (map (\<lambda>t. t @ '' '') (map str_int cnts))"
  by (simp add: write_counts_def comp_def)

lemma read_counts_lines:
  assumes "\<forall>s \<in> set syms. is_token s \<and> s \<in> dom numbers" and "\<exists>s \<in> set syms. py_int s = None"
  shows "read_counts numbers
           ((concat (map (\<lambda>t. t @ '' '') syms) @ [CHR 0x0A]) # (write_counts cnts @ [CHR 0x0A]) # fi)
         = Inr ((cnts, map (\<lambda>s. the (numbers s)) syms), fi)"
proof -
  have 1: "split (strip (concat (map (\<lambda>t. t @ '' '') syms) @ [CHR 0x0A])) = syms"
    using assms(1) by (intro split_token_line) simp
  have 2: "split (strip (write_counts cnts @ [CHR 0x0A])) = map str_int cnts"
    unfolding write_counts_tokens by (intro split_token_line) (simp add: str_int_token)
  have 3: "map_int syms = None" using assms(2) by (rule map_int_None)
  have 4: "lookup_numbers numbers syms = Inr (map (\<lambda>s. the (numbers s)) syms)"
    using assms(1) by (intro lookup_numbers_dom) simp
  show ?thesis
    by (simp add: read_counts_def next_line_def 1 2 3 4 map_int_str_int)
qed

lemma strip_all_space: "\<forall>c \<in> set s. is_space c \<Longrightarrow> strip s = []"
proof -
  assume "\<forall>c \<in> set s. is_space c"
  then have "dropWhile is_space s = []" by simp
  then show ?thesis by (simp only: strip_def rev.simps dropWhile.simps)
qed

lemma strip_newline: "strip (s @ [CHR 0x0A]) = strip s"
proof (cases "\<forall>c \<in> set s. is_space c")
  case True
  then have "\<forall>c \<in> set (s @ [CHR 0x0A]). is_space c" using newline_space by simp
  then have "strip (s @ [CHR 0x0A]) = []" by (rule strip_all_space)
  moreover have "strip s = []" using True by (rule strip_all_space)
  ultimately show ?thesis by simp
next
  case False
  then have "dropWhile is_space (s @ [CHR 0x0A]) = dropWhile is_space s @ [CHR 0x0A]"
    by (auto simp: dropWhile_append1)
  then show ?thesis using newline_space by (simp add: strip_def)
qed

lemma read_coordtype_written:
  "read_coordtype (((if reduced then ''D'' else ''K'') @ [CHR 0x0A]) # fi) = Inr (\<not> reduced, fi)"
proof -
  have "strip ''D'' = ''D''" "strip ''K'' = ''K''"
    by (simp_all add: strip_def is_space_def)
  then have "strip ((if reduced then ''D'' else ''K'') @ [CHR 0x0A]) = (if reduced then ''D'' else ''K'')"
    using strip_newline [of "''D''"] strip_newline [of "''K''"] by simp
  then show ?thesis by (simp add: read_coordtype_def next_line_def)
qed

lemma write_poscar_lines:
  assumes cellg: "\<forall>row \<in> set cell_rows. good_row row"
    and coordg: "\<forall>row \<in> set coord_rows. good_row row"
    and len: "length cnts \<le> length (case occs of None \<Rightarrow> symbols | Some os \<Rightarrow> os)"
    and syms: "syms = take (length cnts) (case occs of None \<Rightarrow> symbols | Some os \<Rightarrow> os)"
    and symg: "\<forall>s \<in> set syms. is_token s"
    and c: "no_linebreak comment_str"
    and sc: "sc = (case vol_str of Some v \<Rightarrow> ''-'' @ v | None \<Rightarrow> scale_str)" "no_linebreak sc"
  shows "\<exists>body. write_poscar symbols cell_rows coord_rows reduced cnts occs comment_str scale_str vol_str
            = Inr body
          \<and> lines_of body =
              (comment_str @ [CHR 0x0A]) # (sc @ [CHR 0x0A]) # map row_line cell_rows
              @ (concat (map (\<lambda>t. t @ '' '') syms) @ [CHR 0x0A]) # (write_counts cnts @ [CHR 0x0A])
              # ((if reduced then ''D'' else ''K'') @ [CHR 0x0A]) # map row_line coord_rows"
proof -
  from write_rows_lines [OF cellg] obtain cell_text where
    ct: "write_rows cell_rows = Inr cell_text"
    and cl: "\<And>rest. lines_from [] (cell_text @ rest) = map row_line cell_rows @ lines_from [] rest"
    by blast
  from write_rows_lines [OF coordg] obtain coord_text where
    dt: "write_rows coord_rows = Inr coord_text"
    and dl: "\<And>rest. lines_from [] (coord_text @ rest) = map row_line coord_rows @ lines_from [] rest"
    by blast
  let ?names = "case occs of None \<Rightarrow> symbols | Some os \<Rightarrow> os"
  let ?species = "concat (map (\<lambda>t. t @ '' '') syms)"
  have "\<forall>i \<in> set [0..<length cnts]. i < length ?names" using len by simp
  from write_species_text [OF this]
  have st: "write_species symbols occs [0..<length cnts] = Inr ?species"
    using map_nth_upt [OF len] by (simp add: syms)
  have n1: "CHR 0x0A \<notin> set comment_str" using c by (auto simp: no_linebreak_def)
  have n2: "CHR 0x0A \<notin> set sc" using sc(2) by (auto simp: no_linebreak_def)
  have n3: "CHR 0x0A \<notin> set ?species" using symg by (rule token_line_no_newline)
  have n4: "CHR 0x0A \<notin> set (write_counts cnts)"
    unfolding write_counts_tokens by (rule token_line_no_newline) (simp add: str_int_token)
  have n5: "CHR 0x0A \<notin> set (if reduced then ''D'' else ''K'')" by simp
  let ?dk = "if reduced then ''D'' else ''K''"
  have l5: "lines_from [] (?dk @ CHR 0x0A # coord_text) = (?dk @ [CHR 0x0A]) # map row_line coord_rows"
    using lines_from_line [OF n5, of "[]" coord_text] dl [of "[]"] by simp
  have l4: "lines_from [] (write_counts cnts @ CHR 0x0A # ?dk @ CHR 0x0A # coord_text) =
      (write_counts cnts @ [CHR 0x0A]) # (?dk @ [CHR 0x0A]) # map row_line coord_rows"
    using lines_from_line [OF n4, of "[]"] l5 by simp
  have l3: "lines_from [] (?species @ CHR 0x0A # write_counts cnts @ CHR 0x0A # ?dk @ CHR 0x0A # coord_text) =
      (?species @ [CHR 0x0A]) # (write_counts cnts @ [CHR 0x0A]) # (?dk @ [CHR 0x0A])
      # map row_line coord_rows"
    using lines_from_line [OF n3, of "[]"] l4 by simp
  have l2: "lines_from [] (cell_text @ ?species @ CHR 0x0A # write_counts cnts @ CHR 0x0A
              # ?dk @ CHR 0x0A # coord_text) =
      map row_line cell_rows @ (?species @ [CHR 0x0A]) # (write_counts cnts @ [CHR 0x0A])
      # (?dk @ [CHR 0x0A]) # map row_line coord_rows"
    using cl l3 by simp
  have l1: "lines_from [] (comment_str @ CHR 0x0A # sc @ CHR 0x0A # cell_text @ ?species @ CHR 0x0A
              # write_counts cnts @ CHR 0x0A # ?dk @ CHR 0x0A # coord_text) =
      (comment_str @ [CHR 0x0A]) # (sc @ [CHR 0x0A]) # map row_line cell_rows
      @ (?species @ [CHR 0x0A]) # (write_counts cnts @ [CHR 0x0A])
      # (?dk @ [CHR 0x0A]) # map row_line coord_rows"
    using lines_from_line [OF n1, of "[]"] lines_from_line [OF n2, of "[]"] l2 by simp
  have "write_poscar symbols cell_rows coord_rows reduced cnts occs comment_str scale_str vol_str =
      Inr (comment_str @ CHR 0x0A # sc @ CHR 0x0A # cell_text @ ?species @ CHR 0x0A
              # write_counts cnts @ CHR 0x0A # ?dk @ CHR 0x0A # coord_text)"
    by (simp add: write_poscar_def ct dt st sc(1))
  with l1 show ?thesis by (simp add: lines_of_def)
qed

text \<open>
  The record read back from the written text, field by field. The flag
  \<open>coords_reduced\<close> comes back negated.
\<close>

lemma write_then_parse_record:
  assumes cell3: "length cell_rows = 3"
    and cellg: "\<forall>row \<in> set cell_rows. good_row row"
    and coordg: "\<forall>row \<in> set coord_rows. good_row row"
    and total: "int (length coord_rows) = sum_list cnts"
    and len: "length cnts \<le> length (case occs of None \<Rightarrow> symbols | Some os \<Rightarrow> os)"
    and symg: "\<forall>s \<in> set (take (length cnts) (case occs of None \<Rightarrow> symbols | Some os \<Rightarrow> os)).
                 is_token s \<and> s \<in> dom numbers"
    and symi: "\<exists>s \<in> set (take (length cnts) (case occs of None \<Rightarrow> symbols | Some os \<Rightarrow> os)).
                 py_int s = None"
    and c: "no_linebreak comment_str"
    and sc: "no_linebreak (case vol_str of Some v \<Rightarrow> ''-'' @ v | None \<Rightarrow> scale_str)"
    and fl: "float_neg (strip (case vol_str of Some v \<Rightarrow> ''-'' @ v | None \<Rightarrow> scale_str)) \<noteq> None"
  shows "\<exists>negative.
           float_neg (strip (case vol_str of Some v \<Rightarrow> ''-'' @ v | None \<Rightarrow> scale_str)) = Some negative
         \<and> write_then_parse float_neg numbers symbols cell_rows coord_rows reduced cnts occs
               comment_str scale_str vol_str =
             Inr \<lparr> cell = cell_rows,
                   scale = (if negative then None
                            else Some (strip (case vol_str of Some v \<Rightarrow> ''-'' @ v | None \<Rightarrow> scale_str))),
                   vol = (if negative
                          then Some (drop 1 (strip (case vol_str of Some v \<Rightarrow> ''-'' @ v
                                                    | None \<Rightarrow> scale_str)))
                          else None),
                   coords = coord_rows, coords_reduced = \<not> reduced, counts = cnts,
                   occupations =
                     map (\<lambda>s. the (numbers s))
                       (take (length cnts) (case occs of None \<Rightarrow> symbols | Some os \<Rightarrow> os)),
                   comment = strip comment_str \<rparr>"
proof -
  let ?syms = "take (length cnts) (case occs of None \<Rightarrow> symbols | Some os \<Rightarrow> os)"
  let ?sc = "case vol_str of Some v \<Rightarrow> ''-'' @ v | None \<Rightarrow> scale_str"
  have symt: "\<forall>s \<in> set ?syms. is_token s" using symg by blast
  from write_poscar_lines [OF cellg coordg len refl symt c refl sc, of reduced]
  obtain body where
    w: "write_poscar symbols cell_rows coord_rows reduced cnts occs comment_str scale_str vol_str = Inr body"
    and l: "lines_of body =
              (comment_str @ [CHR 0x0A]) # (?sc @ [CHR 0x0A]) # map row_line cell_rows
              @ (concat (map (\<lambda>t. t @ '' '') ?syms) @ [CHR 0x0A]) # (write_counts cnts @ [CHR 0x0A])
              # ((if reduced then ''D'' else ''K'') @ [CHR 0x0A]) # map row_line coord_rows"
    by blast
  from fl obtain negative where f0: "float_neg (strip ?sc) = Some negative" by auto
  then have f: "float_neg (strip (?sc @ [CHR 0x0A])) = Some negative" by (simp add: strip_newline)
  have rc: "read_cell 3 (map row_line cell_rows @ fi) = Inr (cell_rows, fi)" for fi
    using read_cell_lines [OF cellg, of fi] by (simp only: cell3)
  have rn: "read_counts numbers
      ((concat (map (\<lambda>t. t @ '' '') ?syms) @ [CHR 0x0A]) # (write_counts cnts @ [CHR 0x0A]) # fi)
      = Inr ((cnts, map (\<lambda>s. the (numbers s)) ?syms), fi)" for fi
    using symg symi by (rule read_counts_lines)
  have n: "nat (sum_list cnts) = length coord_rows" using total by simp
  have rd: "read_coords None (nat (sum_list cnts)) (map row_line coord_rows) = Inr (coord_rows, [])"
    using read_coords_lines [OF coordg, of "[]"] by (simp only: n append_Nil2)
  have "poscar_to_strs float_neg numbers None (lines_of body) =
      Inr \<lparr> cell = cell_rows,
            scale = (if negative then None else Some (strip (?sc @ [CHR 0x0A]))),
            vol = (if negative then Some (drop 1 (strip (?sc @ [CHR 0x0A]))) else None),
            coords = coord_rows, coords_reduced = \<not> reduced, counts = cnts,
            occupations = map (\<lambda>s. the (numbers s)) ?syms,
            comment = strip (comment_str @ [CHR 0x0A]) \<rparr>"
    unfolding l poscar_to_strs_def poscar_to_strs_rest_def
    by (simp add: next_line_def f rc rn rd read_coordtype_written del: read_cell.simps)
  then show ?thesis using w f0 by (simp add: write_then_parse_def strip_newline)
qed

text \<open>
  Claim C1, as amended. Take a cell of three rows of three tokens, coordinate rows of
  three tokens, as many of them as the counts add up to, species names (for every count
  a token known to the periodic table, not all of them integer literals), a comment and
  a scale or volume without line break, the latter accepted by \<open>float\<close>. Then
  \<open>poscar_to_strs\<close> parses the text \<open>write_poscar\<close> writes, and returns the same counts,
  the same cell tokens and the same coordinate tokens.
\<close>

theorem write_poscar_roundtrip:
  assumes cell3: "length cell_rows = 3"
    and cellg: "\<forall>row \<in> set cell_rows. good_row row"
    and coordg: "\<forall>row \<in> set coord_rows. good_row row"
    and total: "int (length coord_rows) = sum_list cnts"
    and len: "length cnts \<le> length (case occs of None \<Rightarrow> symbols | Some os \<Rightarrow> os)"
    and symg: "\<forall>s \<in> set (take (length cnts) (case occs of None \<Rightarrow> symbols | Some os \<Rightarrow> os)).
                 is_token s \<and> s \<in> dom numbers"
    and symi: "\<exists>s \<in> set (take (length cnts) (case occs of None \<Rightarrow> symbols | Some os \<Rightarrow> os)).
                 py_int s = None"
    and c: "no_linebreak comment_str"
    and sc: "no_linebreak (case vol_str of Some v \<Rightarrow> ''-'' @ v | None \<Rightarrow> scale_str)"
    and fl: "float_neg (strip (case vol_str of Some v \<Rightarrow> ''-'' @ v | None \<Rightarrow> scale_str)) \<noteq> None"
  shows "\<exists>r. write_then_parse float_neg numbers symbols cell_rows coord_rows reduced cnts occs
               comment_str scale_str vol_str = Inr r
             \<and> counts r = cnts \<and> cell r = cell_rows \<and> coords r = coord_rows"
proof -
  have "\<exists>negative.
           float_neg (strip (case vol_str of Some v \<Rightarrow> ''-'' @ v | None \<Rightarrow> scale_str)) = Some negative
         \<and> write_then_parse float_neg numbers symbols cell_rows coord_rows reduced cnts occs
               comment_str scale_str vol_str =
             Inr \<lparr> cell = cell_rows,
                   scale = (if negative then None
                            else Some (strip (case vol_str of Some v \<Rightarrow> ''-'' @ v | None \<Rightarrow> scale_str))),
                   vol = (if negative
                          then Some (drop 1 (strip (case vol_str of Some v \<Rightarrow> ''-'' @ v
                                                    | None \<Rightarrow> scale_str)))
                          else None),
                   coords = coord_rows, coords_reduced = \<not> reduced, counts = cnts,
                   occupations =
                     map (\<lambda>s. the (numbers s))
                       (take (length cnts) (case occs of None \<Rightarrow> symbols | Some os \<Rightarrow> os)),
                   comment = strip comment_str \<rparr>"
    using assms by (rule write_then_parse_record)
  then obtain r where
    "write_then_parse float_neg numbers symbols cell_rows coord_rows reduced cnts occs
       comment_str scale_str vol_str = Inr r"
    and "counts r = cnts" and "cell r = cell_rows" and "coords r = coord_rows"
    by force
  then show ?thesis by blast
qed

theorem write_poscar_roundtrip_witness:
  "\<exists>r. write_then_parse sample_float_neg sample_numbers [] unit_cell
          [[''0'', ''0'', ''0''], [''1/2'', ''1/2'', ''1/2'']] True [1, 1] (Some [''Fe'', ''O''])
          ''Comment'' ''1'' None = Inr r
       \<and> counts r = [1, 1] \<and> cell r = unit_cell
       \<and> coords r = [[''0'', ''0'', ''0''], [''1/2'', ''1/2'', ''1/2'']]"
proof -
  have tok: "is_token ''0''" "is_token ''1''" "is_token ''1/2''" "is_token ''Fe''" "is_token ''O''"
    by (simp_all add: is_token_def is_space_def)
  have ni: "py_int ''Fe'' = None" by code_simp
  show ?thesis
    by (rule write_poscar_roundtrip)
      (simp_all add: unit_cell_def good_row_def tok ni no_linebreak_def sample_numbers_def
        sample_float_neg_def strip_def is_space_def)
qed

text \<open>
  Claim C1 as stated fails: with the species given as the atomic number \<open>26\<close>, the
  written species line is read back as the counts line, and parsing the written text
  ends in \<open>StopIteration\<close>.
\<close>

theorem write_poscar_roundtrip_counterexample:
  "write_then_parse sample_float_neg sample_numbers [] unit_cell [[''0'', ''0'', ''0'']]
      True [1] (Some [''26'']) ''Comment'' ''1'' None = Inl StopIteration"
  by code_simp

text \<open>
  Claim C2 at a concrete file. The documentation of \<open>poscar_to_strs\<close> says
  \<open>coords_reduced\<close> is true for reduced (direct) coordinates. The code returns
  \<open>coords_reduced = True\<close> for a file whose coordinate-type line is \<open>Cartesian\<close> and
  \<open>coords_reduced = False\<close> for one whose line is \<open>Direct\<close>.
\<close>

theorem coordtype_marker_inverted:
  "poscar_to_strs sample_float_neg sample_numbers None (sample_stream ''Cartesian'')
     = Inr (sample_record True)
   \<and> poscar_to_strs sample_float_neg sample_numbers None (sample_stream ''Direct'')
     = Inr (sample_record False)"
  by code_simp

section \<open>Properties of the output parser\<close>

lemma apply_outcar_rules:
  "apply_rules outcar_rules line (self, results) =
     ((case search_energy line of
         None \<Rightarrow> self
       | Some m \<Rightarrow> self(''final_energy_with_entropy'' \<mapsto> PyStr (m ! 0), ''final_energy'' \<mapsto> PyStr (m ! 1))),
      (if contains ''FREE ENERGIE'' line then results(''final'' \<mapsto> PyBool True) else results))"
  by (simp add: outcar_rules_def read_energy_def set_final_def search_free_energie_def
      split: option.splits)

lemma scan_no_final:
  "fst (fold (apply_rules outcar_rules) ioa (self, results)) ''final'' = self ''final''"
proof (induction ioa arbitrary: self results)
  case Nil
  show ?case by simp
next
  case (Cons l ioa)
  show ?case by (simp add: apply_outcar_rules Cons.IH split: option.splits)
qed

lemma scan_results_dom:
  "snd (fold (apply_rules outcar_rules) ioa (self, results)) ''final'' =
     (if \<exists>l \<in> set ioa. contains ''FREE ENERGIE'' l then Some (PyBool True) else results ''final'')"
proof (induction ioa arbitrary: self results)
  case Nil
  show ?case by simp
next
  case (Cons l ioa)
  show ?case by (simp add: apply_outcar_rules Cons.IH)
qed

lemma scan_no_energy:
  "\<forall>l \<in> set ioa. search_energy l = None \<Longrightarrow>
   fst (fold (apply_rules outcar_rules) ioa (self, results)) = self"
proof (induction ioa arbitrary: self results)
  case Nil
  show ?case by simp
next
  case (Cons l ioa)
  then show ?case by (simp add: apply_outcar_rules)
qed

lemma outcar_parse_unfold:
  "outcar_parse self ioa =
     ((fst (fold (apply_rules outcar_rules) ioa (self, [''final'' \<mapsto> PyBool False])))
        (''parsed'' \<mapsto> PyBool True),
      snd (fold (apply_rules outcar_rules) ioa (self, [''final'' \<mapsto> PyBool False])))"
  by (simp add: outcar_parse_def micro_pyawk_def outcar_rules_def Let_def split: prod.splits)

lemma read_outcar_unfold:
  "read_outcar ioa =
     (fst (fold (apply_rules outcar_rules) ioa ([''ioa'' \<mapsto> PyLines ioa], [''final'' \<mapsto> PyBool False])))
       (''parsed'' \<mapsto> PyBool True)"
  by (simp add: read_outcar_def OutcarReader_def outcar_parse_unfold)

lemma read_outcar_no_final: "read_outcar ioa ''final'' = None"
  by (simp add: read_outcar_unfold scan_no_final)

lemma read_outcar_no_energy:
  assumes "\<forall>l \<in> set ioa. search_energy l = None"
  shows "read_outcar ioa ''final_energy'' = None"
    and "read_outcar ioa ''final_energy_with_entropy'' = None"
  using assms by (simp_all add: read_outcar_unfold scan_no_energy)

lemma read_outcar_last_energy:
  assumes "ioa = pre @ l # post" and "search_energy l = Some m"
    and "\<forall>l' \<in> set post. search_energy l' = None"
  shows "read_outcar ioa ''final_energy'' = Some (PyStr (m ! 1))"
    and "read_outcar ioa ''final_energy_with_entropy'' = Some (PyStr (m ! 0))"
proof -
  define st0 :: "pydict \<times> pydict" where "st0 = ([''ioa'' \<mapsto> PyLines ioa], [''final'' \<mapsto> PyBool False])"
  obtain self1 results1 where 1: "fold (apply_rules outcar_rules) pre st0 = (self1, results1)"
    by (cases "fold (apply_rules outcar_rules) pre st0")
  obtain self2 results2 where 2: "apply_rules outcar_rules l (self1, results1) = (self2, results2)"
    by (cases "apply_rules outcar_rules l (self1, results1)")
  have s2: "self2 = self1(''final_energy_with_entropy'' \<mapsto> PyStr (m ! 0), ''final_energy'' \<mapsto> PyStr (m ! 1))"
    using 2 assms(2) by (simp add: apply_outcar_rules)
  have "fold (apply_rules outcar_rules) (pre @ l # post) st0
      = fold (apply_rules outcar_rules) post (self2, results2)"
    by (simp add: 1 2 del: apply_rules.simps)
  then have "fst (fold (apply_rules outcar_rules) ioa st0) = self2"
    using scan_no_energy [OF assms(3), of self2 results2] by (simp add: assms(1))
  then have r: "read_outcar ioa = self2(''parsed'' \<mapsto> PyBool True)"
    by (simp add: read_outcar_unfold st0_def)
  show "read_outcar ioa ''final_energy'' = Some (PyStr (m ! 1))"
    and "read_outcar ioa ''final_energy_with_entropy'' = Some (PyStr (m ! 0))"
    by (simp_all add: r s2)
qed

lemma parse_results_final:
  "snd (outcar_parse self ioa) ''final'' = Some (PyBool (\<exists>l \<in> set ioa. contains ''FREE ENERGIE'' l))"
  by (simp add: outcar_parse_unfold scan_results_dom)

text \<open>
  Claim C3 at a concrete stream. For an energy line followed by a \<open>FREE ENERGIE\<close> line
  the reader holds both energies (the second group with the newline that ends the
  line), but it has no attribute \<open>final\<close>: the flag is set in the dictionary \<open>results\<close>,
  which \<open>parse\<close> drops. For the empty stream the reader has no attribute \<open>final\<close> either.
\<close>

theorem outcar_final_flag_dropped:
  "getattr (read_outcar sample_outcar) ''final_energy'' = Inr (PyStr (''-10.40'' @ [CHR 0x0A]))
   \<and> getattr (read_outcar sample_outcar) ''final_energy_with_entropy'' = Inr (PyStr ''-10.50'')
   \<and> getattr (read_outcar sample_outcar) ''final'' = Inl (AttributeError ''final'')
   \<and> snd (outcar_parse [''ioa'' \<mapsto> PyLines sample_outcar] sample_outcar) ''final'' = Some (PyBool True)
   \<and> getattr (read_outcar []) ''final'' = Inl (AttributeError ''final'')"
  by code_simp

section \<open>Properties of the result assembler\<close>

lemma scan_listing_no_contcar:
  "scan_listing env path files (final_energy, struct) = Inr (final_energy', struct') \<Longrightarrow>
   \<forall>f \<in> set files. \<not> contains ''CONTCAR'' f \<Longrightarrow> struct' = struct"
proof (induction files arbitrary: final_energy)
  case Nil
  then show ?case by simp
next
  case (Cons f files)
  then show ?case by (auto split: sum.splits if_splits)
qed

lemma generate_result_no_contcar:
  assumes "\<forall>f \<in> set (listdir env). \<not> contains ''CONTCAR'' f"
    and "generate_result env path = Inr (Some r)"
  shows "result_structure r = None"
proof -
  from assms(2) obtain final_energy struct where
    s: "scan_listing env path (listdir env) (None, None) = Inr (final_energy, struct)"
    by (auto simp: generate_result_def split: sum.splits)
  from scan_listing_no_contcar [OF s assms(1)] have "struct = None" .
  with assms(2) s show ?thesis
    by (auto simp: generate_result_def Let_def split: sum.splits option.splits if_splits)
qed

lemma generate_result_fallback_fails:
  assumes "\<forall>f \<in> set (listdir env). \<not> contains ''CONTCAR'' f"
    and "scan_listing env path (listdir env) (None, None) = Inr st"
    and "poscar_to_structure env (path_join path ''POSCAR'') (Some 5) = Inl e"
  shows "generate_result env path = Inr None"
proof -
  obtain final_energy struct where st: "st = (final_energy, struct)" by (cases st)
  from scan_listing_no_contcar [OF assms(2) [unfolded st] assms(1)] have "struct = None" .
  with assms(2,3) st show ?thesis by (simp add: generate_result_def)
qed

text \<open>
  Claim C4 at a concrete directory. With an OUTCAR, a POSCAR that parses and no
  CONTCAR, \<open>generate_result\<close> returns a result whose structure is \<open>None\<close>: the parsed
  POSCAR is not assigned. With a POSCAR that does not parse it returns \<open>None\<close>.
\<close>

theorem generate_result_drops_poscar:
  "poscar_to_structure (sample_dir (sample_stream ''Direct'')) ''/run/POSCAR'' (Some 5)
     = Inr (sample_record False)
   \<and> generate_result (sample_dir (sample_stream ''Direct'')) ''/run''
     = Inr (Some \<lparr> computation = (), result_structure = None, total_energy = - 52 / 5 \<rparr>)
   \<and> generate_result (sample_dir (take 2 (sample_stream ''Direct''))) ''/run'' = Inr None"
  by code_simp

section \<open>Properties of \<open>parse_outcar\<close>\<close>

subsection \<open>Running statements in sequence\<close>

lemma then_do_Inr: "then_do m f = Inr y \<longleftrightarrow> (\<exists>x. m = Inr x \<and> f x = Inr y)"
  by (cases m) (simp_all add: then_do_def)

lemma then_do_simps [simp]: "then_do (Inl e) f = Inl e" "then_do (Inr x) f = f x"
  by (simp_all add: then_do_def)

lemma split_from_nonempty:
  "cur \<noteq> [] \<or> (\<exists>c \<in> set s. \<not> is_space c) \<Longrightarrow> split_from cur s \<noteq> []"
  by (induction s arbitrary: cur) auto

lemma split_nonempty: "\<exists>c \<in> set s. \<not> is_space c \<Longrightarrow> split s \<noteq> []"
  by (simp add: split_def split_from_nonempty)

lemma contains_hd: "contains (p # pat) s \<Longrightarrow> p \<in> set s"
  by (induction s) (auto split: if_splits)

lemma search_at_vasp: "search_at vasp_here s \<Longrightarrow> CHR ''v'' \<in> set s"
proof (induction s)
  case Nil
  then show ?case by (simp add: vasp_here_def)
next
  case (Cons c s)
  then show ?case by (cases "c = CHR ''v''") (auto simp: vasp_here_def)
qed

lemma letters_not_space:
  "\<not> is_space CHR ''v''" "\<not> is_space CHR ''L''" "\<not> is_space CHR ''E''"
  by (simp_all add: is_space_def)

lemma split_on_nonempty: "split_on sep cur s \<noteq> []"
  by (induction s arbitrary: cur) auto

subsection \<open>What each statement leaves alone\<close>

lemma upd_code_frame:
  "upd_code info line = Inr info' \<Longrightarrow>
   Cores info' = Cores info \<and> System info' = System info \<and> Nodes info' = Nodes info"
  by (auto simp: upd_code_def then_do_Inr Let_def split: if_splits)

lemma upd_potentials_frame:
  "upd_potentials info line = Inr info' \<Longrightarrow>
   Cores info' = Cores info \<and> System info' = System info \<and> Nodes info' = Nodes info"
  by (auto simp: upd_potentials_def Let_def split: if_splits)

lemma upd_xc_frame:
  "upd_xc info line = Inr info' \<Longrightarrow>
   Cores info' = Cores info \<and> System info' = System info \<and> Nodes info' = Nodes info"
  by (auto simp: upd_xc_def then_do_Inr split: if_splits)

lemma upd_encut_frame:
  "upd_encut tf info line = Inr info' \<Longrightarrow>
   Cores info' = Cores info \<and> System info' = System info \<and> Nodes info' = Nodes info"
  by (auto simp: upd_encut_def then_do_Inr split: if_splits option.splits)

lemma upd_nkpts_frame:
  "upd_nkpts info line = Inr info' \<Longrightarrow>
   Cores info' = Cores info \<and> System info' = System info \<and> Nodes info' = Nodes info"
  by (auto simp: upd_nkpts_def then_do_Inr split: if_splits option.splits)

lemma upd_elapsed_frame:
  "upd_elapsed tf info line = Inr info' \<Longrightarrow>
   Cores info' = Cores info \<and> System info' = System info \<and> Nodes info' = Nodes info"
  by (auto simp: upd_elapsed_def then_do_Inr split: if_splits option.splits)

lemma upd_system_effect:
  "upd_system info line = Inr info' \<Longrightarrow>
   Cores info' = Cores info \<and> Nodes info' = Nodes info \<and>
   System info' = (if System info = None \<and> contains ''executed on'' line
                   then Some (system_name line) else System info)"
  by (auto simp: upd_system_def then_do_Inr Let_def system_name_def split: if_splits)

lemma upd_cores_effect:
  "upd_cores info line = Inr info' \<Longrightarrow>
   System info' = System info \<and> Nodes info' = Nodes info \<and>
   (if Cores info = None \<and> contains ''running on'' line
    then Cores info' \<noteq> None else Cores info' = Cores info)"
  by (auto simp: upd_cores_def then_do_Inr split: if_splits option.splits)

lemma update_fields_effect:
  assumes "update_fields tf info line = Inr info'"
  shows "Nodes info' = Nodes info"
    and "System info' = (if System info = None \<and> contains ''executed on'' line
                         then Some (system_name line) else System info)"
    and "if Cores info = None \<and> contains ''running on'' line
         then Cores info' \<noteq> None else Cores info' = Cores info"
proof -
  from assms obtain i1 i2 i3 i4 i5 i6 i7 where
    s: "upd_code info line = Inr i1" "upd_potentials i1 line = Inr i2" "upd_system i2 line = Inr i3"
      "upd_xc i3 line = Inr i4" "upd_cores i4 line = Inr i5" "upd_encut tf i5 line = Inr i6"
      "upd_nkpts i6 line = Inr i7" "upd_elapsed tf i7 line = Inr info'"
    unfolding update_fields_def then_do_Inr by blast
  note f = upd_code_frame [OF s(1)] upd_potentials_frame [OF s(2)] upd_system_effect [OF s(3)]
    upd_xc_frame [OF s(4)] upd_cores_effect [OF s(5)] upd_encut_frame [OF s(6)]
    upd_nkpts_frame [OF s(7)] upd_elapsed_frame [OF s(8)]
  show "Nodes info' = Nodes info" using f by simp
  show "System info' = (if System info = None \<and> contains ''executed on'' line
                         then Some (system_name line) else System info)"
    using f by simp
  show "if Cores info = None \<and> contains ''running on'' line
         then Cores info' \<noteq> None else Cores info' = Cores info"
    using f by (simp split: if_splits)
qed

subsection \<open>A line whose fields can be read raises nothing\<close>

lemma upd_code_total: "\<exists>info'. upd_code info line = Inr info'"
proof (cases "Code info = None \<and> search_at vasp_here line")
  case False
  then show ?thesis by (auto simp: upd_code_def)
next
  case True
  then have "split line \<noteq> []"
    using search_at_vasp letters_not_space by (intro split_nonempty) blast
  then obtain w ws where w: "split line = w # ws" by (cases "split line") auto
  obtain d ds where d: "split_on CHR ''.'' [] w = d # ds"
    using split_on_nonempty [of "CHR ''.''" "[]" w] by (cases "split_on CHR ''.'' [] w") auto
  show ?thesis using True
    by (simp add: upd_code_def w d index_at_def last_of_def Let_def)
qed

lemma upd_potentials_total: "\<exists>info'. upd_potentials info line = Inr info'"
  by (simp add: upd_potentials_def Let_def)

lemma upd_system_total: "line_ok tf line \<Longrightarrow> \<exists>info'. upd_system info line = Inr info'"
  by (auto simp: upd_system_def line_ok_def index_at_def last_of_def Let_def)

lemma upd_xc_total: "\<exists>info'. upd_xc info line = Inr info'"
proof (cases "XC info = None \<and> contains ''LEXCH'' line")
  case False
  then show ?thesis by (auto simp: upd_xc_def)
next
  case True
  then have "CHR ''L'' \<in> set line" by (auto dest: contains_hd)
  then have "split line \<noteq> []" using letters_not_space by (intro split_nonempty) blast
  then show ?thesis by (simp add: upd_xc_def last_of_def)
qed

lemma upd_cores_total: "line_ok tf line \<Longrightarrow> \<exists>info'. upd_cores info line = Inr info'"
  by (auto simp: upd_cores_def line_ok_def index_at_def)

lemma upd_encut_total: "line_ok tf line \<Longrightarrow> \<exists>info'. upd_encut tf info line = Inr info'"
  by (auto simp: upd_encut_def line_ok_def index_at_def)

lemma upd_nkpts_total: "line_ok tf line \<Longrightarrow> \<exists>info'. upd_nkpts info line = Inr info'"
  by (auto simp: upd_nkpts_def line_ok_def index_at_def)

lemma upd_elapsed_total: "line_ok tf line \<Longrightarrow> \<exists>info'. upd_elapsed tf info line = Inr info'"
proof (cases "Elapsed info = None \<and> contains ''Elapsed time'' line")
  case False
  then show ?thesis by (auto simp: upd_elapsed_def)
next
  case True
  assume ok: "line_ok tf line"
  from True have "CHR ''E'' \<in> set line" by (auto dest: contains_hd)
  then have "split line \<noteq> []" using letters_not_space by (intro split_nonempty) blast
  moreover from ok True obtain x where "tf (last (split line)) = Some x"
    by (auto simp: line_ok_def)
  ultimately show ?thesis by (simp add: upd_elapsed_def last_of_def)
qed

lemma update_fields_total:
  assumes "line_ok tf line"
  shows "\<exists>info'. update_fields tf info line = Inr info'"
proof -
  obtain i1 where 1: "upd_code info line = Inr i1" using upd_code_total by blast
  obtain i2 where 2: "upd_potentials i1 line = Inr i2" using upd_potentials_total by blast
  obtain i3 where 3: "upd_system i2 line = Inr i3" using upd_system_total [OF assms] by blast
  obtain i4 where 4: "upd_xc i3 line = Inr i4" using upd_xc_total by blast
  obtain i5 where 5: "upd_cores i4 line = Inr i5" using upd_cores_total [OF assms] by blast
  obtain i6 where 6: "upd_encut tf i5 line = Inr i6" using upd_encut_total [OF assms] by blast
  obtain i7 where 7: "upd_nkpts i6 line = Inr i7" using upd_nkpts_total [OF assms] by blast
  obtain i8 where 8: "upd_elapsed tf i7 line = Inr i8" using upd_elapsed_total [OF assms] by blast
  show ?thesis by (simp add: update_fields_def 1 2 3 4 5 6 7 8)
qed

lemma derive_nodes_unknown:
  "Cores info = Some n \<Longrightarrow> System info = Some sys \<Longrightarrow> system_cpn sys = None \<Longrightarrow>
   derive_nodes info = Inl (KeyError sys)"
  by (simp add: derive_nodes_def)

lemma derive_nodes_skip:
  "Cores info = None \<or> System info = None \<Longrightarrow> derive_nodes info = Inr info"
  by (auto simp: derive_nodes_def split: option.splits)

lemma outcar_loop_unknown_system:
  assumes unk: "system_cpn sys = None"
  shows "Nodes info = None \<Longrightarrow>
     (Cores info = None \<longrightarrow> (\<exists>l \<in> set f. contains ''running on'' (rstrip_newline l))) \<Longrightarrow>
     (case System info of
        None \<Rightarrow> (\<exists>l0. find (\<lambda>l. contains ''executed on'' (rstrip_newline l)) f = Some l0
                      \<and> system_name (rstrip_newline l0) = sys)
      | Some s \<Rightarrow> s = sys) \<Longrightarrow>
     Cores info = None \<or> System info = None \<Longrightarrow>
     \<exists>e. outcar_loop tf info f = Inl e
        \<and> ((\<forall>l \<in> set f. line_ok tf (rstrip_newline l)) \<longrightarrow> e = KeyError sys)"
proof (induction f arbitrary: info)
  case Nil
  then show ?case by (auto split: option.splits)
next
  case (Cons t f)
  let ?line = "rstrip_newline t"
  have ns: "\<not> all_set info" using Cons.prems(1) by (simp add: all_set_def)
  show ?case
  proof (cases "update_fields tf info ?line")
    case (Inl e)
    have "\<not> line_ok tf ?line" using update_fields_total [of tf ?line info] Inl by auto
    with Inl ns show ?thesis by simp
  next
    case (Inr info1)
    note eff = update_fields_effect [OF Inr]
    have sys1: "System info1 = None \<or> System info1 = Some sys"
    proof (cases "System info")
      case (Some s)
      with Cons.prems(3) eff(2) show ?thesis by simp
    next
      case None
      show ?thesis
      proof (cases "contains ''executed on'' ?line")
        case True
        with None Cons.prems(3) have "system_name ?line = sys" by simp
        with None True eff(2) show ?thesis by simp
      next
        case False
        with None eff(2) show ?thesis by simp
      qed
    qed
    show ?thesis
    proof (cases "Cores info1 = None \<or> System info1 = None")
      case False
      then obtain n where "Cores info1 = Some n" "System info1 = Some sys" using sys1 by auto
      from derive_nodes_unknown [OF this unk] Inr ns show ?thesis by simp
    next
      case True
      have 1: "Nodes info1 = None" using eff(1) Cons.prems(1) by simp
      have 2: "Cores info1 = None \<longrightarrow> (\<exists>l \<in> set f. contains ''running on'' (rstrip_newline l))"
        using eff(3) Cons.prems(2) by (auto split: if_splits)
      have 3: "case System info1 of
          None \<Rightarrow> (\<exists>l0. find (\<lambda>l. contains ''executed on'' (rstrip_newline l)) f = Some l0
                      \<and> system_name (rstrip_newline l0) = sys)
        | Some s \<Rightarrow> s = sys"
      proof (cases "System info1")
        case (Some s)
        with sys1 show ?thesis by simp
      next
        case None
        with eff(2) have "System info = None" "\<not> contains ''executed on'' ?line"
          by (auto split: if_splits)
        with Cons.prems(3) None show ?thesis by simp
      qed
      from Cons.IH [OF 1 2 3 True] obtain e where
        e: "outcar_loop tf info1 f = Inl e"
        "(\<forall>l \<in> set f. line_ok tf (rstrip_newline l)) \<longrightarrow> e = KeyError sys" by blast
      have "outcar_loop tf info (t # f) = Inl e"
        using ns Inr derive_nodes_skip [OF True] e(1) by simp
      with e(2) show ?thesis by simp
    qed
  qed
qed

text \<open>
  Claim C10. Let the stream hold a line containing \<open>running on\<close>, and let the system
  named by its first line containing \<open>executed on\<close> be no key of \<open>system_cpn\<close> (the keys
  are Lumi, Dardel, Tetralith and Sigma). Then \<open>parse_outcar\<close> returns no record: it
  ends in an exception, and when every line's fields can be read that exception is the
  \<open>KeyError\<close> of the lookup in \<open>system_cpn\<close>, for that system.
\<close>

theorem parse_outcar_unknown_system:
  assumes "\<exists>l \<in> set f. contains ''running on'' (rstrip_newline l)"
    and "find (\<lambda>l. contains ''executed on'' (rstrip_newline l)) f = Some l0"
    and "system_cpn (system_name (rstrip_newline l0)) = None"
  shows "\<exists>e. parse_outcar to_float f = Inl e
           \<and> ((\<forall>l \<in> set f. line_ok to_float (rstrip_newline l)) \<longrightarrow>
                e = KeyError (system_name (rstrip_newline l0)))"
  unfolding parse_outcar_def
  using assms(1,2)
  by (intro outcar_loop_unknown_system [OF assms(3)]) (simp_all add: initial_calc_info_def)

theorem parse_outcar_unknown_system_witness:
  "parse_outcar (\<lambda>s. None :: rat option) sample_host_outcar = Inl (KeyError ''LinuxIFC'')"
proof -
  have h1: "\<exists>l \<in> set sample_host_outcar. contains ''running on'' (rstrip_newline l)"
    by code_simp
  have h2: "find (\<lambda>l. contains ''executed on'' (rstrip_newline l)) sample_host_outcar
      = Some (sample_host_outcar ! 0)"
    by code_simp
  have h3: "system_name (rstrip_newline (sample_host_outcar ! 0)) = ''LinuxIFC''"
    by code_simp
  have h4: "system_cpn ''LinuxIFC'' = None"
    by code_simp
  have h5: "\<forall>l \<in> set sample_host_outcar. line_ok (\<lambda>s. None :: rat option) (rstrip_newline l)"
    by code_simp
  from parse_outcar_unknown_system [OF h1 h2, of "\<lambda>s. None :: rat option"] h3 h4 h5
  show ?thesis by auto
qed

section \<open>Properties of \<open>structure_to_poscar\<close>\<close>










section \<open>Properties of the k-point estimator\<close>











end
